theory Spec2Isabelle
  imports Complex_Main
begin

section \<open>Data model\<close>

text \<open>
  A JavaScript number is a \<^typ>\<open>real\<close> that is a double (see the next section for the
  arithmetic). A value that may be \<^verbatim>\<open>undefined\<close> or \<^verbatim>\<open>null\<close> is an \<^typ>\<open>'a option\<close>. A
  bounding box is the array \<^verbatim>\<open>[x, y, width, height]\<close>.
\<close>

type_synonym bbox = "real \<times> real \<times> real \<times> real"

record DOMRect =
  rect_left :: real
  rect_top :: real
  rect_width :: real
  rect_height :: real

record point =
  px :: real
  py :: real

record contain_rect =
  displayWidth :: real
  displayHeight :: real
  offsetX :: real
  offsetY :: real

section \<open>IEEE 754 double-precision arithmetic\<close>

text \<open>
  Every JavaScript number is a double. A finite double is \<open>m * 2 ^ e\<close> with
  \<open>\<bar>m\<bar> \<le> 2 ^ 53\<close> and \<open>e \<ge> - 1074\<close>; an arithmetic operation returns the double nearest
  to the exact result, ties going to the even mantissa. \<open>quantum_exp x\<close> is the exponent
  of the spacing of the doubles around \<open>x\<close> (fixed at \<open>- 1074\<close> in the subnormal range),
  \<open>round_even\<close> rounds to the nearest integer with ties to even, and \<open>rnd\<close> rounds a
  real number to the nearest double. Results beyond the largest double (Infinity) and
  NaN are not represented: the statements below about computed values are made for
  inputs that keep every operation far from the overflow threshold \<open>2 ^ 1024\<close>. The
  sign of zero is not represented either; no function below divides by zero.
\<close>

definition quantum_exp :: "real \<Rightarrow> int" where
  "quantum_exp x = max (\<lfloor>log 2 \<bar>x\<bar>\<rfloor> - 52) (- 1074)"

definition round_even :: "real \<Rightarrow> int" where
  "round_even y =
     (let f = \<lfloor>y\<rfloor>;
          d = y - of_int f
      in if d < 1 / 2 then f
         else if d > 1 / 2 then f + 1
         else if even f then f else f + 1)"

definition rnd :: "real \<Rightarrow> real" where
  "rnd x =
     (if x = 0 then 0
      else of_int (round_even (x / 2 powi quantum_exp x)) * 2 powi quantum_exp x)"

text \<open>
  The arithmetic operators of the source and \<^verbatim>\<open>Math.sqrt\<close>, each rounding its exact
  result once. A number \<open>x\<close> is a double when rounding leaves it unchanged.
\<close>

definition fl_add :: "real \<Rightarrow> real \<Rightarrow> real" where
  "fl_add x y = rnd (x + y)"

definition fl_sub :: "real \<Rightarrow> real \<Rightarrow> real" where
  "fl_sub x y = rnd (x - y)"

definition fl_mul :: "real \<Rightarrow> real \<Rightarrow> real" where
  "fl_mul x y = rnd (x * y)"

definition fl_div :: "real \<Rightarrow> real \<Rightarrow> real" where
  "fl_div x y = rnd (x / y)"

definition fl_sqrt :: "real \<Rightarrow> real" where
  "fl_sqrt x = rnd (sqrt x)"


section \<open>utils/detection.js: coordinate mapping\<close>

text \<open>
  \<^verbatim>\<open>clientToSource(rect, sourceWidth, sourceHeight, clientX, clientY)\<close>: the guard
  \<^verbatim>\<open>!rect.width || !rect.height\<close> is true of a zero width or height.
\<close>

definition clientToSource :: "DOMRect \<Rightarrow> real \<Rightarrow> real \<Rightarrow> real \<Rightarrow> real \<Rightarrow> point" where
  "clientToSource rect sourceWidth sourceHeight clientX clientY =
     (if rect_width rect = 0 \<or> rect_height rect = 0 then \<lparr>px = 0, py = 0\<rparr>
      else
        let scaleX = fl_div sourceWidth (rect_width rect);
            scaleY = fl_div sourceHeight (rect_height rect)
        in \<lparr>px = fl_mul (fl_sub clientX (rect_left rect)) scaleX,
            py = fl_mul (fl_sub clientY (rect_top rect)) scaleY\<rparr>)"

text \<open>A view rectangle of width and height 7, for the centre of a source of size 29.\<close>

definition centre_rect :: DOMRect where
  "centre_rect = \<lparr>rect_left = 0, rect_top = 0, rect_width = 7, rect_height = 7\<rparr>"

section \<open>utils/capture-edit-model.js: contain fit and IoU\<close>

text \<open>
  \<^verbatim>\<open>getContainDisplayRect(clientW, clientH, sourceW, sourceH)\<close>. The source size may be
  unknown (\<^verbatim>\<open>undefined\<close>), which \<^verbatim>\<open>!sourceW\<close> treats like zero.
\<close>

fun getContainDisplayRect :: "real \<Rightarrow> real \<Rightarrow> real option \<Rightarrow> real option \<Rightarrow> contain_rect" where
  "getContainDisplayRect clientW clientH (Some sourceW) (Some sourceH) =
     (if sourceW = 0 \<or> sourceH = 0
      then \<lparr>displayWidth = clientW, displayHeight = clientH, offsetX = 0, offsetY = 0\<rparr>
      else
        let scale = min (fl_div clientW sourceW) (fl_div clientH sourceH);
            w = fl_mul sourceW scale;
            h = fl_mul sourceH scale
        in \<lparr>displayWidth = w, displayHeight = h,
            offsetX = fl_div (fl_sub clientW w) 2,
            offsetY = fl_div (fl_sub clientH h) 2\<rparr>)"
| "getContainDisplayRect clientW clientH _ _ =
     \<lparr>displayWidth = clientW, displayHeight = clientH, offsetX = 0, offsetY = 0\<rparr>"









section \<open>utils/segment-helper.js: cosine similarity\<close>

text \<open>
  The loop of \<^verbatim>\<open>cosineSimilarity(a, b)\<close> runs over the indices of \<^verbatim>\<open>a\<close>, after the guard has
  made the two lengths equal, and accumulates \<^verbatim>\<open>dot\<close>, \<^verbatim>\<open>normA\<close> and \<^verbatim>\<open>normB\<close>.
\<close>

fun cosineLoop :: "real list \<Rightarrow> real list \<Rightarrow> real \<times> real \<times> real \<Rightarrow> real \<times> real \<times> real" where
  "cosineLoop (x # xs) (y # ys) (dot, normA, normB) =
     cosineLoop xs ys
       (fl_add dot (fl_mul x y), fl_add normA (fl_mul x x), fl_add normB (fl_mul y y))"
| "cosineLoop _ _ acc = acc"

definition cosineSimilarity :: "real list \<Rightarrow> real list \<Rightarrow> real" where
  "cosineSimilarity a b =
     (if length a = 0 \<or> length a \<noteq> length b then 0
      else
        case cosineLoop a b (0, 0, 0) of (dot, normA, normB) \<Rightarrow>
          let denom = fl_mul (fl_sqrt normA) (fl_sqrt normB)
          in if denom \<le> 0 then 0
             else let sim = fl_div dot denom
                  in max 0 (min 1 (fl_div (fl_add sim 1) 2)))"

text \<open>
  \<^verbatim>\<open>FEATURE_SIMILARITY_THRESHOLD = 0.65\<close>. The double nearest to 0.65 lies just above
  65/100 and no double lies between the two, so a double is at least the one exactly when
  it is at least the other.
\<close>

definition FEATURE_SIMILARITY_THRESHOLD :: real where
  "FEATURE_SIMILARITY_THRESHOLD = 65 / 100"

text \<open>
  The dot product as the loop accumulates it: the products are rounded one by one and added,
  left to right, to a sum that is rounded after every addition, starting from 0. The squared
  norm of \<open>a\<close> is \<open>dot_double a a\<close>.
\<close>

definition dot_double :: "real list \<Rightarrow> real list \<Rightarrow> real" where
  "dot_double a b = foldl (\<lambda>acc (x, y). fl_add acc (fl_mul x y)) 0 (zip a b)"

text \<open>A vector whose entry is not zero although its square underflows to zero.\<close>

definition tiny_vector :: "real list" where
  "tiny_vector = [1 / 2 ^ 600]"

section \<open>utils/detection.js: detection and box hit-testing\<close>

text \<open>
  A call that may throw (or whose promise may reject) returns a \<open>js_result\<close>; every
  \<^verbatim>\<open>await\<close> is taken in program order.
\<close>

datatype 'a js_result = Throws | Returns 'a

text \<open>
  A prediction \<^verbatim>\<open>{ class, bbox, score }\<close>; the source reads the score through
  \<^verbatim>\<open>p.score ?? 0\<close>, so it may be absent. A hit is the fresh object
  \<^verbatim>\<open>{ class, bbox }\<close>. Of an image only the dimensions
  \<^verbatim>\<open>image.width || image.naturalWidth || image.videoWidth\<close> (and the same for the height)
  are read; an absent dimension behaves like 0 in every comparison the source makes.
\<close>

record prediction =
  pred_class :: string
  pred_bbox :: bbox
  pred_score :: "real option"

record picked =
  picked_class :: string
  picked_bbox :: bbox

record image =
  image_width :: nat
  image_height :: nat

record detection_model =
  detect :: "(image \<Rightarrow> prediction list option js_result) option"

record detect_opts =
  scoreThreshold :: "real option"

text \<open>
  \<^verbatim>\<open>runDetection(model, image, opts)\<close>: a missing model or one without a \<^verbatim>\<open>detect\<close>
  function gives \<^verbatim>\<open>[]\<close>; the threshold is \<^verbatim>\<open>opts.scoreThreshold ?? 0\<close>; a throwing
  \<^verbatim>\<open>detect\<close> is caught; \<^verbatim>\<open>predictions || []\<close> is filtered by score.
\<close>

definition scoreOf :: "prediction \<Rightarrow> real" where
  "scoreOf p = (case pred_score p of None \<Rightarrow> 0 | Some s \<Rightarrow> s)"

definition runDetection :: "detection_model option \<Rightarrow> image \<Rightarrow> detect_opts \<Rightarrow> prediction list" where
  "runDetection model img opts =
     (case model of
        None \<Rightarrow> []
      | Some m \<Rightarrow>
          (case detect m of
             None \<Rightarrow> []
           | Some detect_fn \<Rightarrow>
               let threshold = (case scoreThreshold opts of None \<Rightarrow> 0 | Some t \<Rightarrow> t)
               in case detect_fn img of
                    Throws \<Rightarrow> []
                  | Returns predictions \<Rightarrow>
                      filter (\<lambda>p. scoreOf p \<ge> threshold)
                        (case predictions of None \<Rightarrow> [] | Some ps \<Rightarrow> ps)))"

text \<open>
  \<^verbatim>\<open>pickAtClient\<close>: the filter predicate, the sort key of the comparator
  \<^verbatim>\<open>(a, b) => a.bbox[2] * a.bbox[3] - b.bbox[2] * b.bbox[3]\<close>, and the function.
  The difference of two doubles has the sign of their comparison, so the sort orders by
  the computed area; \<^verbatim>\<open>Array.prototype.sort\<close> is stable, as \<^const>\<open>sort_key\<close> is.
\<close>

definition bboxContains :: "bbox \<Rightarrow> real \<Rightarrow> real \<Rightarrow> bool" where
  "bboxContains b x0 y0 =
     (case b of (x, y, w, h) \<Rightarrow>
        x0 \<ge> x \<and> x0 \<le> fl_add x w \<and> y0 \<ge> y \<and> y0 \<le> fl_add y h)"

definition bboxArea :: "bbox \<Rightarrow> real" where
  "bboxArea b = (case b of (x, y, w, h) \<Rightarrow> fl_mul w h)"

definition pickAtClient ::
  "DOMRect \<Rightarrow> real \<Rightarrow> real \<Rightarrow> real \<Rightarrow> real \<Rightarrow> prediction list \<Rightarrow> picked option" where
  "pickAtClient rect sourceWidth sourceHeight clientX clientY predictions =
     (if rect_width rect = 0 \<or> rect_height rect = 0 \<or> length predictions = 0 then None
      else
        let p = clientToSource rect sourceWidth sourceHeight clientX clientY;
            hits = sort_key (\<lambda>d. bboxArea (pred_bbox d))
                     (filter (\<lambda>d. bboxContains (pred_bbox d) (px p) (py p)) predictions)
        in case hits of
             [] \<Rightarrow> None
           | hit # _ \<Rightarrow> Some \<lparr>picked_class = pred_class hit, picked_bbox = pred_bbox hit\<rparr>)"

text \<open>The view rectangle of the hit-testing examples: the image shown at its own size.\<close>

definition tap_rect :: DOMRect where
  "tap_rect = \<lparr>rect_left = 0, rect_top = 0, rect_width = 100, rect_height = 100\<rparr>"

section \<open>main.js: the check after the hit in tryFindTreasure\<close>

text \<open>
  The last part of \<^verbatim>\<open>tryFindTreasure\<close>, from the result \<^verbatim>\<open>hit\<close> of \<^verbatim>\<open>pickDetectionAt\<close> on.
  \<^verbatim>\<open>refEmbedding\<close> is the stored \<^verbatim>\<open>featureEmbedding\<close> when it is an array, and
  \<^verbatim>\<open>candidateEmbedding\<close> the outcome of \<^verbatim>\<open>await getEmbeddingFromCrop(...)\<close>. The outcome
  is \<^verbatim>\<open>onMarkerFound(targetObject)\<close> or one of the three error toasts; \<^verbatim>\<open>showToast\<close>,
  \<^verbatim>\<open>getCocoLabel\<close> and \<^verbatim>\<open>onMarkerFound\<close> themselves are taken not to throw.
\<close>

datatype find_outcome =
  MarkerFound
  | ToastNothingThere
  | ToastWrongObject
  | ToastOtherInstance

definition tryFindTreasure_check ::
  "picked option \<Rightarrow> string \<Rightarrow> real list option \<Rightarrow> real list js_result \<Rightarrow> find_outcome" where
  "tryFindTreasure_check hit targetObject refEmbedding candidateEmbedding =
     (case hit of
        None \<Rightarrow> ToastNothingThere
      | Some h \<Rightarrow>
          if picked_class h \<noteq> targetObject then ToastWrongObject
          else
            (case refEmbedding of
               None \<Rightarrow> MarkerFound
             | Some reference \<Rightarrow>
                 if length reference > 0 then
                   (case candidateEmbedding of
                      Throws \<Rightarrow> MarkerFound
                    | Returns candidate \<Rightarrow>
                        let sim = cosineSimilarity reference candidate
                        in if sim \<ge> FEATURE_SIMILARITY_THRESHOLD then MarkerFound
                           else ToastOtherInstance)
                 else MarkerFound))"

section \<open>utils/segment-helper.js: segmentation masks and the mask hit-test\<close>

text \<open>
  The mask buffer \<^verbatim>\<open>imageData.data\<close> holds RGBA bytes. A segmentation's \<^verbatim>\<open>mask\<close> either
  has a \<^verbatim>\<open>toImageData()\<close> method (whose result may be null, or which may throw), or is
  itself the image data (\<^verbatim>\<open>getUnderlyingType() === 'imagedata'\<close>), or is neither.
  \<^verbatim>\<open>segmentPeople\<close> is called first with \<^verbatim>\<open>{ multiSegmentation: true }\<close> (flag \<open>True\<close>) and,
  when that throws, without options (flag \<open>False\<close>). \<^verbatim>\<open>createSegmenter\<close> is given
  whether the BodyPix configuration is used. \<open>module_state\<close> holds the module's
  variables \<^verbatim>\<open>segmenter\<close> and \<^verbatim>\<open>segmenterLoadPromise\<close>, \<open>window\<close> the global
  \<^verbatim>\<open>window.bodySegmentation\<close>; \<open>mask_scan\<close> holds the local variables of \<^verbatim>\<open>maskToBbox\<close>.
\<close>

record ImageData =
  data :: "nat list"

datatype mask =
  MaskToImageData "ImageData option js_result"
  | MaskIsImageData ImageData
  | MaskOther

record segmentation =
  seg_mask :: "mask option"

record segmenter =
  segmentPeople :: "(image \<Rightarrow> bool \<Rightarrow> segmentation list option js_result) option"

record body_segmentation =
  has_BodyPix :: bool
  has_MediaPipe :: bool
  createSegmenter :: "bool \<Rightarrow> segmenter option js_result"

record window =
  bodySegmentation :: "body_segmentation option"

record module_state =
  st_segmenter :: "segmenter option"
  st_segmenterLoadPromise :: "segmenter option option"

record segment_hit =
  hit_bbox :: bbox
  hit_index :: nat

record mask_scan =
  minX :: nat
  minY :: nat
  maxX :: nat
  maxY :: nat
  hasPixel :: bool

definition isSegmentAvailable :: "window \<Rightarrow> bool" where
  "isSegmentAvailable w = (bodySegmentation w \<noteq> None)"

definition isSegmentAvailableForClass :: "window \<Rightarrow> string \<Rightarrow> bool" where
  "isSegmentAvailableForClass w className = (className = ''person'' \<and> isSegmentAvailable w)"

definition loadSegmenter :: "window \<Rightarrow> module_state \<Rightarrow> segmenter option \<times> module_state" where
  "loadSegmenter w st =
     (case st_segmenter st of
        Some s \<Rightarrow> (Some s, st)
      | None \<Rightarrow>
          (case st_segmenterLoadPromise st of
             Some r \<Rightarrow> (r, st)
           | None \<Rightarrow>
               (case bodySegmentation w of
                  None \<Rightarrow> (None, st\<lparr>st_segmenterLoadPromise := Some None\<rparr>)
                | Some bs \<Rightarrow>
                    if \<not> (has_BodyPix bs \<or> has_MediaPipe bs)
                    then (None, st\<lparr>st_segmenterLoadPromise := Some None\<rparr>)
                    else
                      (case createSegmenter bs (has_BodyPix bs) of
                         Throws \<Rightarrow> (None, st\<lparr>st_segmenterLoadPromise := Some None\<rparr>)
                       | Returns r \<Rightarrow>
                           (r, st\<lparr>st_segmenter := r, st_segmenterLoadPromise := Some r\<rparr>)))))"

definition maskToImageData :: "segmentation \<Rightarrow> ImageData option js_result" where
  "maskToImageData segmentation =
     (case seg_mask segmentation of
        None \<Rightarrow> Returns None
      | Some (MaskToImageData out) \<Rightarrow> out
      | Some (MaskIsImageData m) \<Rightarrow> Returns (Some m)
      | Some MaskOther \<Rightarrow> Returns None)"

text \<open>
  The test \<^verbatim>\<open>data[i + 3] > 128\<close>: a read beyond the buffer gives \<^verbatim>\<open>undefined\<close>, and the
  comparison is then false.
\<close>

definition alphaAbove :: "ImageData \<Rightarrow> nat \<Rightarrow> bool" where
  "alphaAbove imageData i =
     (i + 3 < length (data imageData) \<and> data imageData ! (i + 3) > 128)"

text \<open>
  \<^verbatim>\<open>maskToBbox\<close>: the body of the inner loop at \<open>(x, y)\<close>, the inner loop over \<open>x\<close>, and
  the outer loop over \<open>y\<close> with the final result. The subtractions are on numbers, not
  on naturals.
\<close>

definition scanPixel :: "ImageData \<Rightarrow> nat \<Rightarrow> nat \<Rightarrow> nat \<Rightarrow> mask_scan \<Rightarrow> mask_scan" where
  "scanPixel imageData width y x s =
     (let i = (y * width + x) * 4
      in if alphaAbove imageData i
         then \<lparr>minX = (if x < minX s then x else minX s),
               minY = (if y < minY s then y else minY s),
               maxX = (if x > maxX s then x else maxX s),
               maxY = (if y > maxY s then y else maxY s),
               hasPixel = True\<rparr>
         else s)"

definition scanRow :: "ImageData \<Rightarrow> nat \<Rightarrow> nat \<Rightarrow> mask_scan \<Rightarrow> mask_scan" where
  "scanRow imageData width y s = fold (scanPixel imageData width y) [0..<width] s"

definition maskToBbox :: "ImageData \<Rightarrow> nat \<Rightarrow> nat \<Rightarrow> bbox option" where
  "maskToBbox imageData width height =
     (let s = fold (scanRow imageData width) [0..<height]
                \<lparr>minX = width, minY = height, maxX = 0, maxY = 0, hasPixel = False\<rparr>
      in if \<not> hasPixel s then None
         else Some (real (minX s), real (minY s),
                    real (maxX s) - real (minX s) + 1,
                    real (maxY s) - real (minY s) + 1))"

definition isPointInMask :: "ImageData \<Rightarrow> nat \<Rightarrow> nat \<Rightarrow> real \<Rightarrow> real \<Rightarrow> bool" where
  "isPointInMask imageData width height x0 y0 =
     (let x = \<lfloor>x0\<rfloor>;
          y = \<lfloor>y0\<rfloor>
      in if x < 0 \<or> x \<ge> int width \<or> y < 0 \<or> y \<ge> int height then False
         else alphaAbove imageData ((nat y * width + nat x) * 4))"

text \<open>
  The loop of \<^verbatim>\<open>getSegmentHitAndBbox\<close> over \<^verbatim>\<open>people[i]\<close>, and the function with its
  \<^verbatim>\<open>try\<close>/\<^verbatim>\<open>catch\<close> blocks.
\<close>

fun hitLoop ::
  "segmentation list \<Rightarrow> nat \<Rightarrow> nat \<Rightarrow> nat \<Rightarrow> real \<Rightarrow> real \<Rightarrow> segment_hit option js_result" where
  "hitLoop [] i width height x0 y0 = Returns None"
| "hitLoop (person # rest) i width height x0 y0 =
     (case maskToImageData person of
        Throws \<Rightarrow> Throws
      | Returns None \<Rightarrow> hitLoop rest (Suc i) width height x0 y0
      | Returns (Some idata) \<Rightarrow>
          if isPointInMask idata width height x0 y0
          then (case maskToBbox idata width height of
                  Some b \<Rightarrow> Returns (Some \<lparr>hit_bbox = b, hit_index = i\<rparr>)
                | None \<Rightarrow> hitLoop rest (Suc i) width height x0 y0)
          else hitLoop rest (Suc i) width height x0 y0)"

definition getSegmentHitAndBbox ::
  "window \<Rightarrow> module_state \<Rightarrow> image \<Rightarrow> real \<Rightarrow> real \<Rightarrow> segment_hit option \<times> module_state" where
  "getSegmentHitAndBbox w st img x0 y0 =
     (case loadSegmenter w st of (seg, st') \<Rightarrow>
        (case seg of
           None \<Rightarrow> (None, st')
         | Some s \<Rightarrow>
             (case segmentPeople s of
                None \<Rightarrow> (None, st')
              | Some segment_fn \<Rightarrow>
                  (case (case segment_fn img True of
                           Throws \<Rightarrow> segment_fn img False
                         | Returns p \<Rightarrow> Returns p) of
                     Throws \<Rightarrow> (None, st')
                   | Returns None \<Rightarrow> (None, st')
                   | Returns (Some people) \<Rightarrow>
                       if length people = 0 then (None, st')
                       else
                         (case hitLoop people 0 (image_width img) (image_height img) x0 y0 of
                            Throws \<Rightarrow> (None, st')
                          | Returns r \<Rightarrow> (r, st'))))))"

text \<open>
  \<^verbatim>\<open>pickDetectionAt\<close> (utils/detection.js); \<^verbatim>\<open>targetClass &&\<close> is false of null and of
  the empty string.
\<close>

definition pickDetectionAt ::
  "window \<Rightarrow> module_state \<Rightarrow> image \<Rightarrow> DOMRect \<Rightarrow> real \<Rightarrow> real \<Rightarrow> real \<Rightarrow> real \<Rightarrow>
   prediction list \<Rightarrow> string option \<Rightarrow> picked option \<times> module_state" where
  "pickDetectionAt w st img rect sourceWidth sourceHeight clientX clientY predictions targetClass =
     (let p = clientToSource rect sourceWidth sourceHeight clientX clientY
      in case targetClass of
           None \<Rightarrow>
             (pickAtClient rect sourceWidth sourceHeight clientX clientY predictions, st)
         | Some tc \<Rightarrow>
             if tc \<noteq> [] \<and> isSegmentAvailableForClass w tc
             then (case getSegmentHitAndBbox w st img (px p) (py p) of
                     (Some segResult, st') \<Rightarrow>
                       (Some \<lparr>picked_class = tc, picked_bbox = hit_bbox segResult\<rparr>, st')
                   | (None, st') \<Rightarrow>
                       (pickAtClient rect sourceWidth sourceHeight clientX clientY predictions,
                        st'))
             else (pickAtClient rect sourceWidth sourceHeight clientX clientY predictions, st))"

section \<open>Notions used to state the properties of the mask scan\<close>

text \<open>
  A pixel of the \<open>width \<times> height\<close> grid is lit when its alpha exceeds 128. \<open>scanned\<close>
  are the lit pixels the two loops of \<^verbatim>\<open>maskToBbox\<close> have visited when they stand at
  column \<open>col\<close> of row \<open>row\<close>, and \<open>scan_inv\<close> is the invariant of the loops.
\<close>

definition isLit :: "ImageData \<Rightarrow> nat \<Rightarrow> nat \<Rightarrow> nat \<Rightarrow> nat \<Rightarrow> bool" where
  "isLit imageData width height x y =
     (x < width \<and> y < height \<and> alphaAbove imageData ((y * width + x) * 4))"

definition scanned :: "ImageData \<Rightarrow> nat \<Rightarrow> nat \<Rightarrow> nat \<Rightarrow> nat \<Rightarrow> nat \<Rightarrow> bool" where
  "scanned imageData width row col x y =
     (x < width \<and> alphaAbove imageData ((y * width + x) * 4)
      \<and> (y < row \<or> (y = row \<and> x < col)))"

definition scan_inv :: "ImageData \<Rightarrow> nat \<Rightarrow> nat \<Rightarrow> nat \<Rightarrow> nat \<Rightarrow> mask_scan \<Rightarrow> bool" where
  "scan_inv imageData width height row col s =
     ((hasPixel s \<longleftrightarrow> (\<exists>x y. scanned imageData width row col x y))
      \<and> (\<not> hasPixel s \<longrightarrow>
            minX s = width \<and> minY s = height \<and> maxX s = 0 \<and> maxY s = 0)
      \<and> (\<forall>x y. scanned imageData width row col x y \<longrightarrow>
            minX s \<le> x \<and> x \<le> maxX s \<and> minY s \<le> y \<and> y \<le> maxY s)
      \<and> (hasPixel s \<longrightarrow>
            (\<exists>y. scanned imageData width row col (minX s) y)
            \<and> (\<exists>y. scanned imageData width row col (maxX s) y)
            \<and> (\<exists>x. scanned imageData width row col x (minY s))
            \<and> (\<exists>x. scanned imageData width row col x (maxY s))))"

section \<open>A small scene for concrete evaluation\<close>

text \<open>
  A \<open>2 \<times> 2\<close> image whose one person mask covers the right column, shown in a
  \<open>4 \<times> 4\<close> view.
\<close>

definition ex_mask :: ImageData where
  "ex_mask = \<lparr>data = [0, 0, 0, 0,  0, 0, 0, 255,  0, 0, 0, 0,  0, 0, 0, 255]\<rparr>"

definition ex_segmenter :: segmenter where
  "ex_segmenter =
     \<lparr>segmentPeople = Some (\<lambda>img multi. Returns (Some [\<lparr>seg_mask = Some (MaskIsImageData ex_mask)\<rparr>]))\<rparr>"

definition ex_window :: window where
  "ex_window =
     \<lparr>bodySegmentation =
        Some \<lparr>has_BodyPix = True, has_MediaPipe = False,
              createSegmenter = (\<lambda>bodyPix. Returns (Some ex_segmenter))\<rparr>\<rparr>"

definition ex_state :: module_state where
  "ex_state = \<lparr>st_segmenter = None, st_segmenterLoadPromise = None\<rparr>"

definition ex_loaded :: module_state where
  "ex_loaded = \<lparr>st_segmenter = Some ex_segmenter, st_segmenterLoadPromise = Some (Some ex_segmenter)\<rparr>"

definition ex_image :: image where
  "ex_image = \<lparr>image_width = 2, image_height = 2\<rparr>"

definition ex_rect :: DOMRect where
  "ex_rect = \<lparr>rect_left = 0, rect_top = 0, rect_width = 4, rect_height = 4\<rparr>"

section \<open>utils/capture-edit-model.js: matching predictions to segment masks\<close>






section \<open>Notions used to state the properties of the matching\<close>








section \<open>Rounding to the nearest double\<close>

lemma round_even_eqI: "\<bar>y - of_int m\<bar> < 1 / 2 \<Longrightarrow> round_even y = m"
proof -
  assume h: "\<bar>y - of_int m\<bar> < 1 / 2"
  show ?thesis
  proof (cases "of_int m \<le> y")
    case True
    with h have "\<lfloor>y\<rfloor> = m" by (intro floor_unique) linarith+
    with h True show ?thesis by (simp add: round_even_def Let_def)
  next
    case False
    have "of_int (m - 1) \<le> y" using h False by simp
    moreover have "y < of_int (m - 1) + 1" using h False by simp
    ultimately
    have f: "\<lfloor>y\<rfloor> = m - 1" by (rule floor_unique)
    from h False have "y - of_int (m - 1) > 1 / 2" by simp
    with f show ?thesis by (simp add: round_even_def Let_def)
  qed
qed

lemma round_even_of_int [simp]: "round_even (of_int m) = m"
  by (rule round_even_eqI) simp

lemma round_even_error: "\<bar>of_int (round_even y) - y\<bar> \<le> 1 / 2"
  unfolding round_even_def Let_def by (auto; linarith)

lemma round_even_mono: "x \<le> y \<Longrightarrow> round_even x \<le> round_even y"
proof -
  assume xy: "x \<le> y"
  then have fl: "\<lfloor>x\<rfloor> \<le> \<lfloor>y\<rfloor>" by (rule floor_mono)
  show ?thesis
  proof (cases "\<lfloor>x\<rfloor> = \<lfloor>y\<rfloor>")
    case True
    with xy show ?thesis unfolding round_even_def Let_def by (auto; linarith)
  next
    case False
    with fl have "\<lfloor>x\<rfloor> + 1 \<le> \<lfloor>y\<rfloor>" by simp
    moreover have "round_even x \<le> \<lfloor>x\<rfloor> + 1" unfolding round_even_def Let_def by auto
    moreover have "\<lfloor>y\<rfloor> \<le> round_even y" unfolding round_even_def Let_def by auto
    ultimately show ?thesis by linarith
  qed
qed

lemma round_even_le_int: "y \<le> of_int n \<Longrightarrow> round_even y \<le> n"
  using round_even_mono [of y "of_int n"] by simp

lemma round_even_ge_int: "of_int n \<le> y \<Longrightarrow> n \<le> round_even y"
  using round_even_mono [of "of_int n" y] by simp

lemma round_even_minus: "round_even (- y) = - round_even y"
proof (cases "y = of_int \<lfloor>y\<rfloor>")
  case True
  then obtain n where "y = of_int n" by blast
  then have "- y = of_int (- n)" by simp
  then show ?thesis unfolding \<open>y = of_int n\<close> by (simp only: round_even_of_int)
next
  case False
  then have fy: "of_int \<lfloor>y\<rfloor> < y" by (metis floor_less_iff less_le of_int_floor_le order_refl)
  have "of_int (- \<lfloor>y\<rfloor> - 1) \<le> - y" "- y < of_int (- \<lfloor>y\<rfloor> - 1) + 1"
    using fy by (simp_all, linarith+)
  then have fm: "\<lfloor>- y\<rfloor> = - \<lfloor>y\<rfloor> - 1" by (rule floor_unique)
  show ?thesis
    unfolding round_even_def Let_def fm using fy
    by (auto; linarith?)
qed

lemma two_powi_pos [simp]: "0 < (2::real) powi e"
  by simp

lemma two_powi_int: "0 \<le> e \<Longrightarrow> (2::real) powi e = of_int (2 ^ nat e)"
  by (simp add: power_int_def)

lemma two_powi_mono: "a \<le> b \<Longrightarrow> (2::real) powi a \<le> 2 powi b"
  by (rule power_int_increasing) simp_all

lemma two_powi_diff: "(2::real) powi a / 2 powi b = 2 powi (a - b)"
  by (simp add: power_int_diff)

lemma binade:
  assumes "x \<noteq> 0"
  shows "2 powi \<lfloor>log 2 \<bar>x\<bar>\<rfloor> \<le> \<bar>x\<bar>" and "\<bar>x\<bar> < 2 powi (\<lfloor>log 2 \<bar>x\<bar>\<rfloor> + 1)"
proof -
  from assms have pos: "0 < \<bar>x\<bar>" by simp
  have "2 powr real_of_int \<lfloor>log 2 \<bar>x\<bar>\<rfloor> \<le> \<bar>x\<bar> \<and> \<bar>x\<bar> < 2 powr real_of_int (\<lfloor>log 2 \<bar>x\<bar>\<rfloor> + 1)"
    using floor_log_eq_powr_iff [OF pos, of 2 "\<lfloor>log 2 \<bar>x\<bar>\<rfloor>"] by simp
  then show "2 powi \<lfloor>log 2 \<bar>x\<bar>\<rfloor> \<le> \<bar>x\<bar>" and "\<bar>x\<bar> < 2 powi (\<lfloor>log 2 \<bar>x\<bar>\<rfloor> + 1)"
    by (simp_all only: powr_real_of_int' [of 2, simplified])
qed

lemma floor_log2_eqI:
  assumes "0 < a" "2 powi k \<le> a" "a < 2 powi (k + 1)"
  shows "\<lfloor>log 2 a\<rfloor> = k"
proof -
  have "2 powr real_of_int k \<le> a \<and> a < 2 powr real_of_int (k + 1)"
    using assms by (simp only: powr_real_of_int' [of 2, simplified])
  then show ?thesis
    using floor_log_eq_powr_iff [OF assms(1), of 2 k] by simp
qed

lemma floor_log2_mono:
  assumes "0 < a" "a \<le> b"
  shows "\<lfloor>log 2 a\<rfloor> \<le> \<lfloor>log 2 b\<rfloor>"
  using assms by (intro floor_mono) simp

lemma quantum_exp_mono: "x \<noteq> 0 \<Longrightarrow> \<bar>x\<bar> \<le> \<bar>y\<bar> \<Longrightarrow> quantum_exp x \<le> quantum_exp y"
  unfolding quantum_exp_def using floor_log2_mono [of "\<bar>x\<bar>" "\<bar>y\<bar>"] by simp

lemma quantum_exp_minus [simp]: "quantum_exp (- x) = quantum_exp x"
  by (simp add: quantum_exp_def)

lemma quantum_exp_eqI:
  assumes "2 powi k \<le> \<bar>x\<bar>" "\<bar>x\<bar> < 2 powi (k + 1)"
  shows "quantum_exp x = max (k - 52) (- 1074)"
proof -
  have "0 < (2::real) powi k" by simp
  with assms(1) have "0 < \<bar>x\<bar>" by linarith
  from floor_log2_eqI [OF this assms] show ?thesis by (simp add: quantum_exp_def)
qed

lemma rnd_eqI:
  assumes "2 powi k \<le> \<bar>x\<bar>" "\<bar>x\<bar> < 2 powi (k + 1)"
    and "e = max (k - 52) (- 1074)"
    and "\<bar>x / 2 powi e - of_int m\<bar> < 1 / 2"
  shows "rnd x = of_int m * 2 powi e"
proof -
  have "0 < (2::real) powi k" by simp
  with assms(1) have "0 < \<bar>x\<bar>" by linarith
  then have nz: "x \<noteq> 0" by simp
  have q: "quantum_exp x = e" using quantum_exp_eqI [OF assms(1,2)] assms(3) by simp
  from assms(4) have "round_even (x / 2 powi e) = m" by (rule round_even_eqI)
  with nz q show ?thesis by (simp add: rnd_def)
qed

lemma rnd_zero [simp]: "rnd 0 = 0"
  by (simp add: rnd_def)

lemma rnd_minus: "rnd (- x) = - rnd x"
  by (simp add: rnd_def round_even_minus)

lemma rnd_error_abs: "x \<noteq> 0 \<Longrightarrow> \<bar>rnd x - x\<bar> \<le> 2 powi quantum_exp x / 2"
proof -
  assume nz: "x \<noteq> 0"
  let ?q = "(2::real) powi quantum_exp x"
  have "\<bar>of_int (round_even (x / ?q)) - x / ?q\<bar> \<le> 1 / 2" by (rule round_even_error)
  then have "\<bar>of_int (round_even (x / ?q)) - x / ?q\<bar> * ?q \<le> 1 / 2 * ?q"
    by (intro mult_right_mono) simp_all
  moreover have "\<bar>of_int (round_even (x / ?q)) - x / ?q\<bar> * ?q
      = \<bar>of_int (round_even (x / ?q)) * ?q - x\<bar>"
  proof -
    have "\<bar>of_int (round_even (x / ?q)) - x / ?q\<bar> * ?q
        = \<bar>(of_int (round_even (x / ?q)) - x / ?q) * ?q\<bar>"
      by (simp add: abs_mult)
    also have "(of_int (round_even (x / ?q)) - x / ?q) * ?q
        = of_int (round_even (x / ?q)) * ?q - x"
      by (simp add: left_diff_distrib)
    finally show ?thesis .
  qed
  ultimately show ?thesis using nz by (simp add: rnd_def)
qed

lemma rnd_error_rel:
  assumes "2 powi (- 1022) \<le> \<bar>x\<bar>"
  shows "\<bar>rnd x - x\<bar> \<le> \<bar>x\<bar> / 2 ^ 53"
proof -
  have "0 < (2::real) powi (- 1022)" by simp
  with assms have "0 < \<bar>x\<bar>" by linarith
  then have nz: "x \<noteq> 0" by simp
  let ?k = "\<lfloor>log 2 \<bar>x\<bar>\<rfloor>"
  have "\<lfloor>log 2 (2 powi (- 1022))\<rfloor> \<le> ?k"
    using assms by (intro floor_log2_mono) simp_all
  moreover have "\<lfloor>log 2 ((2::real) powi (- 1022))\<rfloor> = - 1022"
    by (rule floor_log2_eqI) (simp_all add: two_powi_mono)
  ultimately have k: "- 1022 \<le> ?k" by linarith
  have q: "quantum_exp x = ?k - 52" unfolding quantum_exp_def using k by linarith
  have "\<bar>rnd x - x\<bar> \<le> 2 powi (?k - 52) / 2"
    using rnd_error_abs [OF nz] by (simp add: q)
  also have "\<dots> = 2 powi ?k / 2 ^ 53"
    by (simp add: power_int_diff)
  also have "\<dots> \<le> \<bar>x\<bar> / 2 ^ 53"
    using binade(1) [OF nz] by (simp add: divide_right_mono)
  finally show ?thesis .
qed

lemma rnd_nonneg: "0 \<le> x \<Longrightarrow> 0 \<le> rnd x"
proof (cases "x = 0")
  case True
  then show ?thesis by simp
next
  case False
  assume "0 \<le> x"
  then have "of_int 0 \<le> x / 2 powi quantum_exp x" by simp
  then have "0 \<le> round_even (x / 2 powi quantum_exp x)" by (rule round_even_ge_int)
  with False show ?thesis by (simp add: rnd_def)
qed

lemma rnd_nonpos: "x \<le> 0 \<Longrightarrow> rnd x \<le> 0"
  using rnd_nonneg [of "- x"] by (simp add: rnd_minus)

lemma rnd_le_multiple:
  assumes "x \<noteq> 0" "z = of_int n * 2 powi quantum_exp x" "x \<le> z"
  shows "rnd x \<le> z"
proof -
  let ?q = "(2::real) powi quantum_exp x"
  from assms have "x / ?q \<le> of_int n" by (simp add: pos_divide_le_eq)
  then have "round_even (x / ?q) \<le> n" by (rule round_even_le_int)
  then have "of_int (round_even (x / ?q)) * ?q \<le> of_int n * ?q"
    by (intro mult_right_mono) simp_all
  with assms show ?thesis by (simp add: rnd_def)
qed

lemma rnd_ge_multiple:
  assumes "x \<noteq> 0" "z = of_int n * 2 powi quantum_exp x" "z \<le> x"
  shows "z \<le> rnd x"
proof -
  let ?q = "(2::real) powi quantum_exp x"
  from assms have "of_int n \<le> x / ?q" by (simp add: pos_le_divide_eq)
  then have "n \<le> round_even (x / ?q)" by (rule round_even_ge_int)
  then have "of_int n * ?q \<le> of_int (round_even (x / ?q)) * ?q"
    by (intro mult_right_mono) simp_all
  with assms show ?thesis by (simp add: rnd_def)
qed

lemma rnd_exact:
  assumes "x = of_int n * 2 powi quantum_exp x"
  shows "rnd x = x"
proof (cases "x = 0")
  case True
  then show ?thesis by simp
next
  case False
  from assms have "x / 2 powi quantum_exp x = of_int n"
    by (simp add: nonzero_divide_eq_eq)
  then have "round_even (x / 2 powi quantum_exp x) = n" by simp
  with False assms show ?thesis by (simp add: rnd_def)
qed

lemma floor_log2_less:
  assumes "0 < a" "a < 2 powi k"
  shows "\<lfloor>log 2 a\<rfloor> < k"
proof (rule ccontr)
  assume "\<not> \<lfloor>log 2 a\<rfloor> < k"
  then have "k \<le> \<lfloor>log 2 a\<rfloor>" by simp
  then have "(2::real) powi k \<le> 2 powi \<lfloor>log 2 a\<rfloor>" by (rule two_powi_mono)
  also have "\<dots> \<le> a" using binade(1) [of a] assms(1) by simp
  finally show False using assms(2) by simp
qed

lemma rnd_representable:
  assumes m: "\<bar>m\<bar> \<le> 2 ^ 53" and e: "- 1074 \<le> e"
  shows "rnd (of_int m * 2 powi e) = of_int m * 2 powi e"
proof (cases "m = 0")
  case True
  then show ?thesis by simp
next
  case False
  let ?x = "of_int m * (2::real) powi e"
  have ax: "\<bar>?x\<bar> = of_int \<bar>m\<bar> * 2 powi e" by (simp add: abs_mult)
  have pos: "0 < \<bar>?x\<bar>" using False by simp
  show ?thesis
  proof (cases "\<bar>m\<bar> = 2 ^ 53")
    case True
    then have v: "\<bar>?x\<bar> = 2 powi (e + 53)"
      by (simp add: ax power_int_add)
    have "(2::real) powi (e + 53) < 2 powi (e + 53 + 1)"
      by (rule power_int_strict_increasing) simp_all
    then have "\<lfloor>log 2 \<bar>?x\<bar>\<rfloor> = e + 53"
      unfolding v by (intro floor_log2_eqI) simp_all
    then have q: "quantum_exp ?x = e + 1" using e by (simp add: quantum_exp_def)
    have "m = 2 ^ 53 \<or> m = - (2 ^ 53)" using True by linarith
    then have "?x = of_int (m div 2) * 2 powi (e + 1)"
      by (auto simp: power_int_add)
    then show ?thesis using q by (intro rnd_exact [where n = "m div 2"]) simp
  next
    case ne: False
    with m have lt: "\<bar>m\<bar> < 2 ^ 53" by simp
    then have "real_of_int \<bar>m\<bar> < 2 ^ 53" by (metis of_int_less_numeral_power_cancel_iff)
    then have "\<bar>?x\<bar> < 2 ^ 53 * 2 powi e"
      unfolding ax by (intro mult_strict_right_mono) simp_all
    also have "\<dots> = 2 powi (e + 53)" by (simp add: power_int_add)
    finally have "\<lfloor>log 2 \<bar>?x\<bar>\<rfloor> < e + 53" using floor_log2_less [OF pos] by blast
    then have qe: "quantum_exp ?x \<le> e" using e by (simp add: quantum_exp_def)
    define d where "d = nat (e - quantum_exp ?x)"
    have "(2::real) powi e = 2 powi (e - quantum_exp ?x) * 2 powi quantum_exp ?x"
      by (simp flip: power_int_add)
    also have "(2::real) powi (e - quantum_exp ?x) = of_int (2 ^ d)"
      using qe by (simp add: d_def two_powi_int)
    finally have "?x = of_int (m * 2 ^ d) * 2 powi quantum_exp ?x" by simp
    then show ?thesis by (rule rnd_exact)
  qed
qed

lemma rnd_of_int: "\<bar>n\<bar> \<le> 2 ^ 53 \<Longrightarrow> rnd (of_int n) = of_int n"
  using rnd_representable [of n 0] by simp

lemma rnd_dyadic:
  assumes "\<bar>n\<bar> \<le> 2 ^ 53" "j \<le> 1074"
  shows "rnd (of_int n / 2 ^ j) = of_int n / 2 ^ j"
proof -
  have "of_int n / (2::real) ^ j = of_int n * 2 powi (- int j)"
    by (simp add: power_int_minus field_simps)
  moreover have "rnd (of_int n * 2 powi (- int j)) = of_int n * 2 powi (- int j)"
    using assms by (intro rnd_representable) simp_all
  ultimately show ?thesis by simp
qed

lemma rnd_mantissa_bound:
  assumes "x \<noteq> 0"
  shows "\<bar>round_even (x / 2 powi quantum_exp x)\<bar> \<le> 2 ^ 53"
proof -
  let ?k = "\<lfloor>log 2 \<bar>x\<bar>\<rfloor>"
  let ?q = "(2::real) powi quantum_exp x"
  have "?k - 52 \<le> quantum_exp x" by (simp add: quantum_exp_def)
  then have "(2::real) powi (?k - 52) \<le> ?q" by (rule two_powi_mono)
  then have "\<bar>x\<bar> / ?q \<le> \<bar>x\<bar> / 2 powi (?k - 52)"
    by (intro divide_left_mono) simp_all
  also have "\<dots> \<le> 2 powi (?k + 1) / 2 powi (?k - 52)"
    using binade(2) [OF assms] by (intro divide_right_mono) simp_all
  also have "\<dots> = 2 ^ 53" by (simp add: two_powi_diff)
  finally have b: "\<bar>x\<bar> / ?q \<le> 2 ^ 53" .
  have "x / ?q \<le> \<bar>x\<bar> / ?q" by (simp add: divide_right_mono)
  moreover have "- (\<bar>x\<bar> / ?q) = (- \<bar>x\<bar>) / ?q" by simp
  moreover have "(- \<bar>x\<bar>) / ?q \<le> x / ?q" by (intro divide_right_mono) simp_all
  ultimately have "x / ?q \<le> \<bar>x\<bar> / ?q" "- (\<bar>x\<bar> / ?q) \<le> x / ?q" by simp_all
  with b have u: "x / ?q \<le> of_int (2 ^ 53)" and l: "of_int (- (2 ^ 53)) \<le> x / ?q"
    by simp_all
  from u have "round_even (x / ?q) \<le> 2 ^ 53" by (rule round_even_le_int)
  moreover from l have "- (2 ^ 53) \<le> round_even (x / ?q)" by (rule round_even_ge_int)
  ultimately show ?thesis by linarith
qed

lemma rnd_idem [simp]: "rnd (rnd x) = rnd x"
proof (cases "x = 0")
  case True
  then show ?thesis by simp
next
  case False
  have "- 1074 \<le> quantum_exp x" by (simp add: quantum_exp_def)
  with rnd_mantissa_bound [OF False]
  have "rnd (of_int (round_even (x / 2 powi quantum_exp x)) * 2 powi quantum_exp x)
      = of_int (round_even (x / 2 powi quantum_exp x)) * 2 powi quantum_exp x"
    by (rule rnd_representable)
  with False show ?thesis by (simp add: rnd_def)
qed

lemma rnd_mono_pos:
  assumes "0 < x" "x \<le> y"
  shows "rnd x \<le> rnd y"
proof -
  from assms have nz: "x \<noteq> 0" "y \<noteq> 0" by auto
  let ?kx = "\<lfloor>log 2 \<bar>x\<bar>\<rfloor>" and ?ky = "\<lfloor>log 2 \<bar>y\<bar>\<rfloor>"
  have qle: "quantum_exp x \<le> quantum_exp y"
    using assms by (intro quantum_exp_mono) auto
  show ?thesis
  proof (cases "quantum_exp x = quantum_exp y")
    case True
    have "x / 2 powi quantum_exp y \<le> y / 2 powi quantum_exp y"
      using assms by (intro divide_right_mono) simp_all
    then have "round_even (x / 2 powi quantum_exp y) \<le> round_even (y / 2 powi quantum_exp y)"
      by (rule round_even_mono)
    then have "of_int (round_even (x / 2 powi quantum_exp y)) * (2::real) powi quantum_exp y
        \<le> of_int (round_even (y / 2 powi quantum_exp y)) * 2 powi quantum_exp y"
      by (intro mult_right_mono) simp_all
    with nz True show ?thesis by (simp add: rnd_def)
  next
    case False
    with qle have lt: "quantum_exp x < quantum_exp y" by simp
    have lo: "- 1074 \<le> quantum_exp x" by (simp add: quantum_exp_def)
    have ey: "quantum_exp y = ?ky - 52"
      using lt lo unfolding quantum_exp_def [of y] by linarith
    have "?kx - 52 \<le> quantum_exp x" by (simp add: quantum_exp_def)
    with lt ey have k: "?kx + 1 \<le> ?ky" by linarith
    define z where "z = (2::real) powi ?ky"
    have "x < 2 powi (?kx + 1)" using binade(2) [OF nz(1)] assms(1) by simp
    also have "\<dots> \<le> z" unfolding z_def using k by (rule two_powi_mono)
    finally have xz: "x \<le> z" by simp
    have zy: "z \<le> y" unfolding z_def using binade(1) [OF nz(2)] assms by simp
    have dx: "0 \<le> ?ky - quantum_exp x" using lt ey by linarith
    have "z = 2 powi (?ky - quantum_exp x) * 2 powi quantum_exp x"
      unfolding z_def by (simp flip: power_int_add)
    then have zx: "z = of_int (2 ^ nat (?ky - quantum_exp x)) * 2 powi quantum_exp x"
      using dx by (simp add: two_powi_int)
    have "(2::real) powi (52 + (?ky - 52)) = 2 powi 52 * 2 powi (?ky - 52)"
      by (rule power_int_add) simp
    then have zq: "z = of_int (2 ^ 52) * 2 powi quantum_exp y"
      unfolding z_def ey by simp
    have "rnd x \<le> z" using nz(1) zx xz by (rule rnd_le_multiple)
    also have "z \<le> rnd y" using nz(2) zq zy by (rule rnd_ge_multiple)
    finally show ?thesis .
  qed
qed

lemma rnd_mono: "x \<le> y \<Longrightarrow> rnd x \<le> rnd y"
proof -
  assume xy: "x \<le> y"
  consider "0 < x" | "x \<le> 0" "0 \<le> y" | "y < 0" by linarith
  then show ?thesis
  proof cases
    case 1
    then show ?thesis using xy by (rule rnd_mono_pos)
  next
    case 2
    then show ?thesis using rnd_nonpos [of x] rnd_nonneg [of y] by linarith
  next
    case 3
    then have "0 < - y" "- y \<le> - x" using xy by simp_all
    then have "rnd (- y) \<le> rnd (- x)" by (rule rnd_mono_pos)
    then show ?thesis by (simp add: rnd_minus)
  qed
qed

lemma rnd_numeral [simp]: "numeral w \<le> (2::int) ^ 53 \<Longrightarrow> rnd (numeral w) = numeral w"
  using rnd_of_int [of "numeral w"] by simp

lemma rnd_one [simp]: "rnd 1 = 1"
  using rnd_of_int [of 1] by simp

lemma rnd_half_numeral [simp]:
  "numeral w \<le> (2::int) ^ 53 \<Longrightarrow> rnd (numeral w / 2) = numeral w / 2"
  using rnd_dyadic [of "numeral w" 1] by simp

lemma rnd_half [simp]: "rnd (1 / 2) = 1 / 2"
  using rnd_dyadic [of 1 1] by simp

lemmas fl_defs = fl_add_def fl_sub_def fl_mul_def fl_div_def fl_sqrt_def

lemma round_even_tie:
  assumes "\<bar>y - of_int m\<bar> = 1 / 2" "even m"
  shows "round_even y = m"
proof (cases "of_int m \<le> y")
  case True
  with assms(1) have y: "y = of_int m + 1 / 2" by linarith
  have "of_int m \<le> y" "y < of_int m + 1" using y by simp_all
  then have "\<lfloor>y\<rfloor> = m" by (rule floor_unique)
  with y assms(2) show ?thesis by (simp add: round_even_def Let_def)
next
  case False
  with assms(1) have y: "y = of_int (m - 1) + 1 / 2" by (simp; linarith?)
  have "of_int (m - 1) \<le> y" "y < of_int (m - 1) + 1" unfolding y by simp_all
  then have f: "\<lfloor>y\<rfloor> = m - 1" by (rule floor_unique)
  have "odd (m - 1)" using assms(2) by simp
  with y f show ?thesis by (simp add: round_even_def Let_def)
qed

lemma rnd_eqI_tie:
  assumes "2 powi k \<le> \<bar>x\<bar>" "\<bar>x\<bar> < 2 powi (k + 1)"
    and "e = max (k - 52) (- 1074)"
    and "\<bar>x / 2 powi e - of_int m\<bar> = 1 / 2" "even m"
  shows "rnd x = of_int m * 2 powi e"
proof -
  have "0 < (2::real) powi k" by simp
  with assms(1) have "0 < \<bar>x\<bar>" by linarith
  then have nz: "x \<noteq> 0" by simp
  have q: "quantum_exp x = e" using quantum_exp_eqI [OF assms(1,2)] assms(3) by simp
  from assms(4,5) have "round_even (x / 2 powi e) = m" by (rule round_even_tie)
  with nz q show ?thesis by (simp add: rnd_def)
qed

lemma rnd_rel_bounds:
  assumes "1 / 2 ^ 1022 \<le> x"
  shows "x * (1 - 1 / 2 ^ 53) \<le> rnd x" and "rnd x \<le> x * (1 + 1 / 2 ^ 53)"
proof -
  have "(2::real) powi (- 1022) = 1 / 2 ^ 1022"
    by (simp add: power_int_minus_divide)
  moreover have "0 < (1::real) / 2 ^ 1022" by simp
  ultimately have n: "2 powi (- 1022) \<le> \<bar>x\<bar>" and x: "0 < x" using assms by linarith+
  define d where "d = x / 2 ^ 53"
  from rnd_error_rel [OF n] x have "\<bar>rnd x - x\<bar> \<le> d" by (simp add: d_def)
  then have b: "rnd x - x \<le> d" "- d \<le> rnd x - x" by linarith+
  have e: "x * (1 - 1 / 2 ^ 53) = x - d" "x * (1 + 1 / 2 ^ 53) = x + d"
    by (simp_all add: d_def algebra_simps)
  show "x * (1 - 1 / 2 ^ 53) \<le> rnd x" unfolding e(1) using b by linarith
  show "rnd x \<le> x * (1 + 1 / 2 ^ 53)" unfolding e(2) using b by linarith
qed

lemma rnd_pos: "1 / 2 ^ 1022 \<le> x \<Longrightarrow> 0 < rnd x"
proof -
  assume h: "1 / 2 ^ 1022 \<le> x"
  have "0 < (1::real) / 2 ^ 1022" by simp
  with h have x: "0 < x" by linarith
  have "0 < x * (1 - 1 / 2 ^ 53)" using x by (intro mult_pos_pos) simp_all
  with rnd_rel_bounds(1) [OF h] show ?thesis by linarith
qed

section \<open>Coordinate mapping\<close>

lemma centre_bound:
  assumes w: "1 / 2 ^ 500 \<le> w" "w \<le> 2 ^ 500"
    and s: "1 / 2 ^ 500 \<le> s" "s \<le> 2 ^ 500"
    and c: "c - l = w / 2"
  shows "\<bar>fl_mul (fl_sub c l) (fl_div s w) - s / 2\<bar> \<le> s / 2 ^ 52"
proof -
  define lo :: real where "lo = 1 - 1 / 2 ^ 53"
  define hi :: real where "hi = 1 + 1 / 2 ^ 53"
  have lohi: "0 < lo" "0 < hi" "1 / 4 \<le> lo * lo" "1 - 1 / 2 ^ 51 \<le> lo * lo * lo"
    "hi * hi * hi \<le> 1 + 1 / 2 ^ 51"
    by (simp_all add: lo_def hi_def)
  have wpos: "0 < w" and spos: "0 < s"
    using w(1) s(1) by (simp_all add: less_le_trans [OF _ w(1)] less_le_trans [OF _ s(1)])
  define a where "a = w / 2"
  define b where "b = s / w"
  define A where "A = rnd a"
  define B where "B = rnd b"
  have ab: "a * b = s / 2" using wpos by (simp add: a_def b_def)
  have apos: "0 < a" and bpos: "0 < b" using wpos spos by (simp_all add: a_def b_def)
  have "(1::real) / 2 ^ 1022 \<le> 1 / 2 ^ 501" by simp
  also have "\<dots> \<le> a" using w(1) by (simp add: a_def)
  finally have an: "1 / 2 ^ 1022 \<le> a" .
  have "(1::real) / 2 ^ 1022 \<le> (1 / 2 ^ 500) / 2 ^ 500" by simp
  also have "\<dots> \<le> s / 2 ^ 500" using s(1) by (intro divide_right_mono) simp_all
  also have "\<dots> \<le> s / w" using w(2) wpos spos by (intro divide_left_mono) simp_all
  finally have bn: "1 / 2 ^ 1022 \<le> b" by (simp add: b_def)
  have A: "a * lo \<le> A" "A \<le> a * hi"
    using rnd_rel_bounds [OF an] by (simp_all add: A_def lo_def hi_def)
  have B: "b * lo \<le> B" "B \<le> b * hi"
    using rnd_rel_bounds [OF bn] by (simp_all add: B_def lo_def hi_def)
  have "0 < A" "0 < B"
    unfolding A_def B_def by (rule rnd_pos [OF an], rule rnd_pos [OF bn])
  then have Apos: "0 \<le> A" and Bpos: "0 \<le> B" by simp_all
  have l1: "(a * lo) * (b * lo) \<le> A * B"
    using A(1) B(1) Apos apos bpos lohi(1) by (intro mult_mono) simp_all
  have u1: "A * B \<le> (a * hi) * (b * hi)"
    using A(2) B(2) Apos Bpos apos bpos lohi(2) by (intro mult_mono) simp_all
  have l1': "s / 2 * (lo * lo) \<le> A * B" using l1 by (simp add: ab [symmetric] algebra_simps)
  have u1': "A * B \<le> s / 2 * (hi * hi)" using u1 by (simp add: ab [symmetric] algebra_simps)
  have "(1::real) / 2 ^ 1022 \<le> (1 / 2 ^ 500) / 2 * (1 / 4)" by simp
  also have "\<dots> \<le> s / 2 * (1 / 4)" using s(1) by simp
  also have "\<dots> \<le> s / 2 * (lo * lo)" using lohi(3) spos by (intro mult_left_mono) simp_all
  finally have pn: "1 / 2 ^ 1022 \<le> A * B" using l1' by linarith
  have ABpos: "0 \<le> A * B" using Apos Bpos by simp
  have P: "A * B * lo \<le> rnd (A * B)" "rnd (A * B) \<le> A * B * hi"
    using rnd_rel_bounds [OF pn] by (simp_all add: lo_def hi_def)
  have "s / 2 * (lo * lo) * lo \<le> A * B * lo"
    using l1' lohi(1) by (intro mult_right_mono) simp_all
  with P(1) have low: "s / 2 * (lo * lo * lo) \<le> rnd (A * B)" by (simp add: mult.assoc)
  have "A * B * hi \<le> s / 2 * (hi * hi) * hi"
    using u1' lohi(2) by (intro mult_right_mono) simp_all
  with P(2) have upp: "rnd (A * B) \<le> s / 2 * (hi * hi * hi)" by (simp add: mult.assoc)
  have "s / 2 * (1 - 1 / 2 ^ 51) \<le> s / 2 * (lo * lo * lo)"
    using lohi(4) spos by (intro mult_left_mono) simp_all
  with low have low': "s / 2 * (1 - 1 / 2 ^ 51) \<le> rnd (A * B)" by linarith
  have "s / 2 * (hi * hi * hi) \<le> s / 2 * (1 + 1 / 2 ^ 51)"
    using lohi(5) spos by (intro mult_left_mono) simp_all
  with upp have upp': "rnd (A * B) \<le> s / 2 * (1 + 1 / 2 ^ 51)" by linarith
  define d where "d = s / 2 ^ 52"
  have e: "s / 2 * (1 - 1 / 2 ^ 51) = s / 2 - d" "s / 2 * (1 + 1 / 2 ^ 51) = s / 2 + d"
    by (simp_all add: d_def algebra_simps)
  have "\<bar>rnd (A * B) - s / 2\<bar> \<le> d"
    using low' upp' unfolding e by linarith
  moreover have "fl_mul (fl_sub c l) (fl_div s w) = rnd (A * B)"
    by (simp add: fl_defs A_def B_def a_def b_def c)
  ultimately show ?thesis by (simp add: d_def)
qed

text \<open>
  Claim C7 (amended). For a bounding rectangle of positive width and height,
  \<^verbatim>\<open>clientToSource\<close> returns \<open>((clientX - left) * scaleX, (clientY - top) * scaleY)\<close> with
  \<open>scaleX = sourceWidth / width\<close> and \<open>scaleY = sourceHeight / height\<close>, every operation
  rounded to a double. The client point at the centre of the rectangle maps to
  \<open>(sourceWidth / 2, sourceHeight / 2)\<close> up to a relative error of \<open>2^-51\<close>, for sizes
  between \<open>2^-500\<close> and \<open>2^500\<close>. For a rectangle whose width or height is zero the
  result is \<open>(0, 0)\<close>.
\<close>

theorem clientToSource_spec:
  "(0 < rect_width r \<and> 0 < rect_height r \<longrightarrow>
      clientToSource r sw sh cx cy =
        \<lparr>px = fl_mul (fl_sub cx (rect_left r)) (fl_div sw (rect_width r)),
         py = fl_mul (fl_sub cy (rect_top r)) (fl_div sh (rect_height r))\<rparr>)
   \<and> (1 / 2 ^ 500 \<le> rect_width r \<and> rect_width r \<le> 2 ^ 500
       \<and> 1 / 2 ^ 500 \<le> rect_height r \<and> rect_height r \<le> 2 ^ 500
       \<and> 1 / 2 ^ 500 \<le> sw \<and> sw \<le> 2 ^ 500 \<and> 1 / 2 ^ 500 \<le> sh \<and> sh \<le> 2 ^ 500
       \<and> cx - rect_left r = rect_width r / 2 \<and> cy - rect_top r = rect_height r / 2 \<longrightarrow>
      \<bar>px (clientToSource r sw sh cx cy) - sw / 2\<bar> \<le> sw / 2 ^ 52
      \<and> \<bar>py (clientToSource r sw sh cx cy) - sh / 2\<bar> \<le> sh / 2 ^ 52)
   \<and> (rect_width r = 0 \<or> rect_height r = 0 \<longrightarrow>
      clientToSource r sw sh cx cy = \<lparr>px = 0, py = 0\<rparr>)"
proof (intro conjI impI)
  assume "0 < rect_width r \<and> 0 < rect_height r"
  then show "clientToSource r sw sh cx cy =
        \<lparr>px = fl_mul (fl_sub cx (rect_left r)) (fl_div sw (rect_width r)),
         py = fl_mul (fl_sub cy (rect_top r)) (fl_div sh (rect_height r))\<rparr>"
    by (simp add: clientToSource_def Let_def)
next
  assume "rect_width r = 0 \<or> rect_height r = 0"
  then show "clientToSource r sw sh cx cy = \<lparr>px = 0, py = 0\<rparr>"
    by (auto simp: clientToSource_def)
next
  assume h: "1 / 2 ^ 500 \<le> rect_width r \<and> rect_width r \<le> 2 ^ 500
       \<and> 1 / 2 ^ 500 \<le> rect_height r \<and> rect_height r \<le> 2 ^ 500
       \<and> 1 / 2 ^ 500 \<le> sw \<and> sw \<le> 2 ^ 500 \<and> 1 / 2 ^ 500 \<le> sh \<and> sh \<le> 2 ^ 500
       \<and> cx - rect_left r = rect_width r / 2 \<and> cy - rect_top r = rect_height r / 2"
  have "0 < (1::real) / 2 ^ 500" by simp
  with h have nz: "rect_width r \<noteq> 0" "rect_height r \<noteq> 0" by linarith+
  then have p: "px (clientToSource r sw sh cx cy)
        = fl_mul (fl_sub cx (rect_left r)) (fl_div sw (rect_width r))"
    "py (clientToSource r sw sh cx cy)
        = fl_mul (fl_sub cy (rect_top r)) (fl_div sh (rect_height r))"
    by (simp_all add: clientToSource_def Let_def)
  from h show "\<bar>px (clientToSource r sw sh cx cy) - sw / 2\<bar> \<le> sw / 2 ^ 52"
    unfolding p by (intro centre_bound) simp_all
  from h show "\<bar>py (clientToSource r sw sh cx cy) - sh / 2\<bar> \<le> sh / 2 ^ 52"
    unfolding p by (intro centre_bound) simp_all
qed

text \<open>
  The centre is not mapped exactly: for the rectangle of size 7 and a source of size 29
  the scale \<open>29 / 7\<close> is rounded, and the centre \<open>(3.5, 3.5)\<close> maps to
  \<open>14.5 + 2^-49\<close>, the double after 14.5.
\<close>

lemma centre_value:
  "clientToSource centre_rect 29 29 (7 / 2) (7 / 2) =
     \<lparr>px = 29 / 2 + 1 / 2 ^ 49, py = 29 / 2 + 1 / 2 ^ 49\<rparr>"
proof -
  have a: "rnd (29 / 7) = 4664442471205157 / 2 ^ 50"
    using rnd_eqI [of 2 "29 / 7" "- 50" 4664442471205157] by simp
  have b: "rnd (7 / 2 * (4664442471205157 / 2 ^ 50)) = 29 / 2 + 1 / 2 ^ 49"
    using rnd_eqI [of 3 "7 / 2 * (4664442471205157 / 2 ^ 50)" "- 49" 8162774324609025]
    by simp
  show ?thesis
    by (simp add: clientToSource_def centre_rect_def fl_defs a) (simp add: b [simplified])
qed

theorem clientToSource_centre_counterexample:
  "clientToSource centre_rect 29 29 (7 / 2) (7 / 2) =
     \<lparr>px = 29 / 2 + 1 / 2 ^ 49, py = 29 / 2 + 1 / 2 ^ 49\<rparr>
   \<and> px (clientToSource centre_rect 29 29 (7 / 2) (7 / 2)) \<noteq> 29 / 2"
  by (simp add: centre_value)

theorem clientToSource_spec_witness:
  "(0 < rect_width centre_rect \<and> 0 < rect_height centre_rect
    \<and> clientToSource centre_rect 7 14 3 5 = \<lparr>px = 3, py = 10\<rparr>)
   \<and> (1 / 2 ^ 500 \<le> rect_width centre_rect \<and> rect_width centre_rect \<le> 2 ^ 500
      \<and> (1::real) / 2 ^ 500 \<le> 29 \<and> (29::real) \<le> 2 ^ 500
      \<and> 7 / 2 - rect_left centre_rect = rect_width centre_rect / 2
      \<and> \<bar>px (clientToSource centre_rect 29 29 (7 / 2) (7 / 2)) - 29 / 2\<bar> \<le> 29 / 2 ^ 52
      \<and> \<bar>py (clientToSource centre_rect 29 29 (7 / 2) (7 / 2)) - 29 / 2\<bar> \<le> 29 / 2 ^ 52)
   \<and> (rect_width \<lparr>rect_left = 10, rect_top = 20, rect_width = 0, rect_height = 100\<rparr> = 0
      \<and> clientToSource \<lparr>rect_left = 10, rect_top = 20, rect_width = 0, rect_height = 100\<rparr>
            640 480 60 45 = \<lparr>px = 0, py = 0\<rparr>)"
proof -
  have r: "rect_width centre_rect = 7" "rect_height centre_rect = 7"
    "rect_left centre_rect = 0" "rect_top centre_rect = 0"
    by (simp_all add: centre_rect_def)
  have e: "fl_mul (fl_sub 3 0) (fl_div 7 7) = 3" "fl_mul (fl_sub 5 0) (fl_div 14 7) = 10"
    by (simp_all add: fl_defs)
  have a: "clientToSource centre_rect 7 14 3 5 = \<lparr>px = 3, py = 10\<rparr>"
    using clientToSource_spec [of centre_rect 7 14 3 5, THEN conjunct1] by (simp add: r e)
  have b: "\<bar>px (clientToSource centre_rect 29 29 (7 / 2) (7 / 2)) - 29 / 2\<bar> \<le> 29 / 2 ^ 52
      \<and> \<bar>py (clientToSource centre_rect 29 29 (7 / 2) (7 / 2)) - 29 / 2\<bar> \<le> 29 / 2 ^ 52"
    by (rule clientToSource_spec [of centre_rect 29 29 "7 / 2" "7 / 2",
          THEN conjunct2, THEN conjunct1, rule_format]) (simp add: r)
  have c: "clientToSource \<lparr>rect_left = 10, rect_top = 20, rect_width = 0, rect_height = 100\<rparr>
            640 480 60 45 = \<lparr>px = 0, py = 0\<rparr>"
    by (rule clientToSource_spec [THEN conjunct2, THEN conjunct2, rule_format]) simp
  from a b c show ?thesis by (simp add: r)
qed

section \<open>Contain fit\<close>

lemma contain_bound:
  assumes v: "1 / 2 ^ 250 \<le> v" "v \<le> 2 ^ 250"
    and s: "1 / 2 ^ 250 \<le> s" "s \<le> 2 ^ 250"
    and sc: "scale \<le> fl_div v s"
  shows "fl_mul s scale \<le> v * (1 + 1 / 2 ^ 51)"
proof -
  define hi :: real where "hi = 1 + 1 / 2 ^ 53"
  have hi: "1 \<le> hi" "hi * hi \<le> 1 + 1 / 2 ^ 51" by (simp_all add: hi_def)
  have "0 < (1::real) / 2 ^ 250" by simp
  with v(1) s(1) have vpos: "0 < v" and spos: "0 < s" by linarith+
  have "(1::real) / 2 ^ 1022 \<le> (1 / 2 ^ 250) / 2 ^ 250" by simp
  also have "\<dots> \<le> v / 2 ^ 250" using v(1) by (intro divide_right_mono) simp_all
  also have "\<dots> \<le> v / s" using s(2) vpos spos by (intro divide_left_mono) simp_all
  finally have qn: "1 / 2 ^ 1022 \<le> v / s" .
  have "scale \<le> rnd (v / s)" using sc by (simp add: fl_div_def)
  also have "\<dots> \<le> v / s * hi" using rnd_rel_bounds(2) [OF qn] by (simp add: hi_def)
  finally have "s * scale \<le> s * (v / s * hi)" using spos by (intro mult_left_mono) simp_all
  also have "\<dots> = v * hi" using spos by simp
  finally have "rnd (s * scale) \<le> rnd (v * hi)" by (rule rnd_mono)
  moreover have "rnd (v * hi) \<le> v * hi * hi"
  proof -
    have "(1::real) / 2 ^ 1022 \<le> 1 / 2 ^ 250" by simp
    also have "\<dots> \<le> v" by (rule v(1))
    also have "\<dots> \<le> v * hi" using hi(1) vpos by simp
    finally have "1 / 2 ^ 1022 \<le> v * hi" .
    from rnd_rel_bounds(2) [OF this] show ?thesis by (simp add: hi_def)
  qed
  moreover have "v * hi * hi \<le> v * (1 + 1 / 2 ^ 51)"
    using hi(2) vpos by (simp add: mult.assoc)
  ultimately show ?thesis by (simp add: fl_mul_def)
qed

text \<open>
  Claim C6 (amended). For positive viewport and source sizes \<^verbatim>\<open>getContainDisplayRect\<close>
  returns \<open>displayWidth = sourceW * scale\<close> and \<open>displayHeight = sourceH * scale\<close> with
  \<open>scale = min (viewportW / sourceW) (viewportH / sourceH)\<close>, and
  \<open>offsetX = (viewportW - displayWidth) / 2\<close>, \<open>offsetY = (viewportH - displayHeight) / 2\<close>,
  every operation rounded to a double. For sizes between \<open>2^-250\<close> and \<open>2^250\<close> the
  display width is at most \<open>viewportW * (1 + 2^-51)\<close> and the display height at most
  \<open>viewportH * (1 + 2^-51)\<close>; they can exceed the viewport by a rounding error. When
  \<open>sourceW\<close> or \<open>sourceH\<close> is zero or undefined the result is the viewport with zero
  offsets.
\<close>

theorem getContainDisplayRect_spec:
  "(0 < vw \<and> 0 < vh \<and> 0 < sw \<and> 0 < sh \<longrightarrow>
      (let r = getContainDisplayRect vw vh (Some sw) (Some sh);
           scale = min (fl_div vw sw) (fl_div vh sh)
       in displayWidth r = fl_mul sw scale \<and> displayHeight r = fl_mul sh scale
          \<and> offsetX r = fl_div (fl_sub vw (displayWidth r)) 2
          \<and> offsetY r = fl_div (fl_sub vh (displayHeight r)) 2))
   \<and> (1 / 2 ^ 250 \<le> vw \<and> vw \<le> 2 ^ 250 \<and> 1 / 2 ^ 250 \<le> vh \<and> vh \<le> 2 ^ 250
       \<and> 1 / 2 ^ 250 \<le> sw \<and> sw \<le> 2 ^ 250 \<and> 1 / 2 ^ 250 \<le> sh \<and> sh \<le> 2 ^ 250 \<longrightarrow>
      displayWidth (getContainDisplayRect vw vh (Some sw) (Some sh)) \<le> vw * (1 + 1 / 2 ^ 51)
      \<and> displayHeight (getContainDisplayRect vw vh (Some sw) (Some sh))
            \<le> vh * (1 + 1 / 2 ^ 51))
   \<and> (osw = None \<or> osw = Some 0 \<or> osh = None \<or> osh = Some 0 \<longrightarrow>
      getContainDisplayRect vw vh osw osh =
        \<lparr>displayWidth = vw, displayHeight = vh, offsetX = 0, offsetY = 0\<rparr>)"
proof (intro conjI impI)
  assume "0 < vw \<and> 0 < vh \<and> 0 < sw \<and> 0 < sh"
  then show "let r = getContainDisplayRect vw vh (Some sw) (Some sh);
           scale = min (fl_div vw sw) (fl_div vh sh)
       in displayWidth r = fl_mul sw scale \<and> displayHeight r = fl_mul sh scale
          \<and> offsetX r = fl_div (fl_sub vw (displayWidth r)) 2
          \<and> offsetY r = fl_div (fl_sub vh (displayHeight r)) 2"
    by (simp add: Let_def)
next
  assume "osw = None \<or> osw = Some 0 \<or> osh = None \<or> osh = Some 0"
  then show "getContainDisplayRect vw vh osw osh =
        \<lparr>displayWidth = vw, displayHeight = vh, offsetX = 0, offsetY = 0\<rparr>"
    by (cases osw; cases osh) auto
next
  assume h: "1 / 2 ^ 250 \<le> vw \<and> vw \<le> 2 ^ 250 \<and> 1 / 2 ^ 250 \<le> vh \<and> vh \<le> 2 ^ 250
       \<and> 1 / 2 ^ 250 \<le> sw \<and> sw \<le> 2 ^ 250 \<and> 1 / 2 ^ 250 \<le> sh \<and> sh \<le> 2 ^ 250"
  have "0 < (1::real) / 2 ^ 250" by simp
  with h have nz: "sw \<noteq> 0" "sh \<noteq> 0" by linarith+
  define scale where "scale = min (fl_div vw sw) (fl_div vh sh)"
  have d: "displayWidth (getContainDisplayRect vw vh (Some sw) (Some sh)) = fl_mul sw scale"
    "displayHeight (getContainDisplayRect vw vh (Some sw) (Some sh)) = fl_mul sh scale"
    using nz by (simp_all add: Let_def scale_def)
  have sc: "scale \<le> fl_div vw sw" "scale \<le> fl_div vh sh" by (simp_all add: scale_def)
  from h have r: "1 / 2 ^ 250 \<le> vw" "vw \<le> 2 ^ 250" "1 / 2 ^ 250 \<le> vh" "vh \<le> 2 ^ 250"
    "1 / 2 ^ 250 \<le> sw" "sw \<le> 2 ^ 250" "1 / 2 ^ 250 \<le> sh" "sh \<le> 2 ^ 250"
    by blast+
  show "displayWidth (getContainDisplayRect vw vh (Some sw) (Some sh))
        \<le> vw * (1 + 1 / 2 ^ 51)"
    unfolding d by (rule contain_bound [OF r(1) r(2) r(5) r(6) sc(1)])
  show "displayHeight (getContainDisplayRect vw vh (Some sw) (Some sh))
        \<le> vh * (1 + 1 / 2 ^ 51)"
    unfolding d by (rule contain_bound [OF r(3) r(4) r(7) r(8) sc(2)])
qed

text \<open>
  The display width can exceed the viewport: for a viewport of \<open>7 \<times> 100000\<close> and a
  source of \<open>25 \<times> 1\<close> the scale is the double nearest to \<open>7 / 25\<close>, the width is
  \<open>7 + 2^-50\<close> and the horizontal offset is negative.
\<close>

lemma contain_value:
  "displayWidth (getContainDisplayRect 7 100000 (Some 25) (Some 1)) = 7 + 1 / 2 ^ 50"
  "offsetX (getContainDisplayRect 7 100000 (Some 25) (Some 1)) = - (1 / 2 ^ 51)"
proof -
  have a: "fl_div 7 25 = 5044031582654956 / 2 ^ 54"
    unfolding fl_div_def
    using rnd_eqI [of "- 2" "7 / 25" "- 54" 5044031582654956] by simp
  have a': "fl_div 100000 1 = 100000" by (simp add: fl_div_def)
  have s: "min (fl_div 7 25) (fl_div 100000 1) = 5044031582654956 / 2 ^ 54"
    unfolding a a' by simp
  have w: "fl_mul 25 (5044031582654956 / 2 ^ 54) = 7 + 1 / 2 ^ 50"
    unfolding fl_mul_def
    using rnd_eqI [of 2 "25 * (5044031582654956 / 2 ^ 54)" "- 50" 7881299347898369] by simp
  have d: "fl_sub 7 (7 + 1 / 2 ^ 50) = - (1 / 2 ^ 50)"
    unfolding fl_sub_def using rnd_dyadic [of "- 1" 50] by simp
  have e: "fl_div (- (1 / 2 ^ 50)) 2 = - (1 / 2 ^ 51)"
    unfolding fl_div_def using rnd_dyadic [of "- 1" 51] by simp
  have "displayWidth (getContainDisplayRect 7 100000 (Some 25) (Some 1))
      = fl_mul 25 (min (fl_div 7 25) (fl_div 100000 1))"
    by (simp add: Let_def)
  also have "\<dots> = 7 + 1 / 2 ^ 50" unfolding s by (rule w)
  finally show "displayWidth (getContainDisplayRect 7 100000 (Some 25) (Some 1))
      = 7 + 1 / 2 ^ 50" .
  have "offsetX (getContainDisplayRect 7 100000 (Some 25) (Some 1))
      = fl_div (fl_sub 7 (fl_mul 25 (min (fl_div 7 25) (fl_div 100000 1)))) 2"
    by (simp add: Let_def)
  also have "\<dots> = - (1 / 2 ^ 51)" unfolding s w d by (rule e)
  finally show "offsetX (getContainDisplayRect 7 100000 (Some 25) (Some 1)) = - (1 / 2 ^ 51)" .
qed

theorem getContainDisplayRect_bound_counterexample:
  "displayWidth (getContainDisplayRect 7 100000 (Some 25) (Some 1)) = 7 + 1 / 2 ^ 50
   \<and> \<not> displayWidth (getContainDisplayRect 7 100000 (Some 25) (Some 1)) \<le> 7
   \<and> offsetX (getContainDisplayRect 7 100000 (Some 25) (Some 1)) = - (1 / 2 ^ 51)"
  unfolding contain_value by simp

theorem getContainDisplayRect_spec_witness:
  "((0::real) < 400 \<and> (0::real) < 300 \<and> (0::real) < 800 \<and> (0::real) < 400
    \<and> getContainDisplayRect 400 300 (Some 800) (Some 400) =
        \<lparr>displayWidth = 400, displayHeight = 200, offsetX = 0, offsetY = 50\<rparr>)
   \<and> ((1::real) / 2 ^ 250 \<le> 7 \<and> (7::real) \<le> 2 ^ 250
      \<and> (1::real) / 2 ^ 250 \<le> 100000 \<and> (100000::real) \<le> 2 ^ 250
      \<and> (1::real) / 2 ^ 250 \<le> 25 \<and> (25::real) \<le> 2 ^ 250
      \<and> (1::real) / 2 ^ 250 \<le> 1 \<and> (1::real) \<le> 2 ^ 250
      \<and> displayWidth (getContainDisplayRect 7 100000 (Some 25) (Some 1))
            \<le> 7 * (1 + 1 / 2 ^ 51))
   \<and> getContainDisplayRect 400 300 None (Some 480) =
        \<lparr>displayWidth = 400, displayHeight = 300, offsetX = 0, offsetY = 0\<rparr>"
proof -
  have q: "rnd (3 / 4) = 3 / 4" using rnd_dyadic [of 3 2] by simp
  have a: "getContainDisplayRect 400 300 (Some 800) (Some 400) =
        \<lparr>displayWidth = 400, displayHeight = 200, offsetX = 0, offsetY = 50\<rparr>"
    using getContainDisplayRect_spec [of 400 300 800 400 None None, THEN conjunct1]
    by (simp add: Let_def fl_defs q)
  have b: "displayWidth (getContainDisplayRect 7 100000 (Some 25) (Some 1))
            \<le> 7 * (1 + 1 / 2 ^ 51)"
    using getContainDisplayRect_spec [of 7 100000 25 1 None None, THEN conjunct2, THEN conjunct1]
    by simp
  have c: "getContainDisplayRect 400 300 None (Some 480) =
        \<lparr>displayWidth = 400, displayHeight = 300, offsetX = 0, offsetY = 0\<rparr>"
    by (rule getContainDisplayRect_spec [THEN conjunct2, THEN conjunct2, rule_format]) simp
  from a b c show ?thesis by simp
qed

section \<open>Intersection over union\<close>















section \<open>Cosine similarity\<close>

lemma cosineLoop_self:
  "\<exists>n. cosineLoop v v (d, d, d) = (n, n, n)"
proof (induction v arbitrary: d)
  case Nil
  then show ?case by simp
next
  case (Cons x xs)
  show ?case using Cons [of "fl_add d (fl_mul x x)"] by simp
qed

lemma cosineLoop_zeros_left:
  "length a = length b \<Longrightarrow> \<forall>x\<in>set a. x = 0 \<Longrightarrow>
   \<exists>dot nB'. cosineLoop a b (d, 0, nB) = (dot, 0, nB')"
proof (induction a b arbitrary: d nB rule: list_induct2)
  case Nil
  then show ?case by simp
next
  case (Cons x xs y ys)
  then have "x = 0" "\<forall>x\<in>set xs. x = 0" by simp_all
  with Cons.IH [of "fl_add d (fl_mul x y)" "fl_add nB (fl_mul y y)"] show ?case
    by (simp add: fl_add_def fl_mul_def)
qed

lemma cosineLoop_zeros_right:
  "length a = length b \<Longrightarrow> \<forall>y\<in>set b. y = 0 \<Longrightarrow>
   \<exists>dot nA'. cosineLoop a b (d, nA, 0) = (dot, nA', 0)"
proof (induction a b arbitrary: d nA rule: list_induct2)
  case Nil
  then show ?case by simp
next
  case (Cons x xs y ys)
  then have "y = 0" "\<forall>y\<in>set ys. y = 0" by simp_all
  with Cons.IH [of "fl_add d (fl_mul x y)" "fl_add nA (fl_mul x x)"] show ?case
    by (simp add: fl_add_def fl_mul_def)
qed

lemma cosineSimilarity_range: "0 \<le> cosineSimilarity a b \<and> cosineSimilarity a b \<le> 1"
  by (simp add: cosineSimilarity_def Let_def split: prod.splits)

lemma cosineSimilarity_zero_norm:
  assumes "a = [] \<or> b = [] \<or> length a \<noteq> length b
      \<or> (\<forall>x\<in>set a. x = 0) \<or> (\<forall>x\<in>set b. x = 0)"
  shows "cosineSimilarity a b = 0"
proof (cases "a \<noteq> [] \<and> length a = length b")
  case False
  then show ?thesis by (auto simp: cosineSimilarity_def)
next
  case True
  with assms consider "\<forall>x\<in>set a. x = 0" | "\<forall>x\<in>set b. x = 0" by auto
  then show ?thesis
  proof cases
    case 1
    with True obtain dot nB where "cosineLoop a b (0, 0, 0) = (dot, 0, nB)"
      using cosineLoop_zeros_left [of a b 0 0] by auto
    with True show ?thesis by (simp add: cosineSimilarity_def fl_sqrt_def fl_mul_def)
  next
    case 2
    with True obtain dot nA where "cosineLoop a b (0, 0, 0) = (dot, nA, 0)"
      using cosineLoop_zeros_right [of a b 0 0] by auto
    with True show ?thesis by (simp add: cosineSimilarity_def fl_sqrt_def fl_mul_def)
  qed
qed

lemma cosineSimilarity_self_bound:
  assumes loop: "cosineLoop v v (0, 0, 0) = (d, n, n')"
    and n: "1 / 2 ^ 1000 \<le> n"
  shows "1 - 1 / 2 ^ 50 \<le> cosineSimilarity v v"
proof -
  define lo :: real where "lo = 1 - 1 / 2 ^ 53"
  define hi :: real where "hi = 1 + 1 / 2 ^ 53"
  have c: "0 < lo" "0 < hi" "1 / 4 \<le> lo * lo" "1 / 2 \<le> 1 / (hi * hi * hi)"
    "1 - 1 / 2 ^ 50 \<le> (lo / (hi * hi * hi) + 1) * lo / 2 * lo"
    by (simp_all add: lo_def hi_def)
  from cosineLoop_self [of v 0] loop have eq: "d = n" "n' = n" by auto
  have "0 < (1::real) / 2 ^ 1000" by simp
  with n have npos: "0 < n" by linarith
  have ne: "v \<noteq> []" using loop npos by (cases v) auto
  define s where "s = fl_sqrt n"
  define D where "D = fl_mul s s"
  define sim where "sim = fl_div n D"
  define t where "t = fl_add sim 1"
  define r where "r = fl_div t 2"
  \<comment> \<open>the square root\<close>
  have sq0: "sqrt (1 / 2 ^ 1000) \<le> sqrt n" by (rule real_sqrt_le_mono [OF n])
  have sq1: "sqrt ((1::real) / 2 ^ 1000) = 1 / 2 ^ 500"
    by (rule real_sqrt_unique) (simp_all add: power2_eq_square)
  have sq: "1 / 2 ^ 500 \<le> sqrt n" using sq0 unfolding sq1 .
  have "(1::real) / 2 ^ 1022 \<le> 1 / 2 ^ 500" by simp
  with sq have sqn: "1 / 2 ^ 1022 \<le> sqrt n" by linarith
  have s: "sqrt n * lo \<le> s" "s \<le> sqrt n * hi"
    using rnd_rel_bounds [OF sqn] by (simp_all add: s_def fl_sqrt_def lo_def hi_def)
  have rpos: "0 < sqrt n" using npos by simp
  have rr: "sqrt n * sqrt n = n" using npos by simp
  have spos: "0 \<le> s" using rnd_pos [OF sqn] by (simp add: s_def fl_sqrt_def)
  \<comment> \<open>its square\<close>
  have "(sqrt n * lo) * (sqrt n * lo) \<le> s * s"
    using s(1) spos rpos c(1) by (intro mult_mono) simp_all
  moreover have "(sqrt n * lo) * (sqrt n * lo) = (sqrt n * sqrt n) * (lo * lo)"
    by (simp only: ac_simps)
  moreover note rr
  ultimately have ssl: "n * (lo * lo) \<le> s * s" by simp
  have "s * s \<le> (sqrt n * hi) * (sqrt n * hi)"
    using s(2) spos by (intro mult_mono) simp_all
  moreover have "(sqrt n * hi) * (sqrt n * hi) = (sqrt n * sqrt n) * (hi * hi)"
    by (simp only: ac_simps)
  moreover note rr
  ultimately have ssu: "s * s \<le> n * (hi * hi)" by simp
  have "(1::real) / 2 ^ 1022 \<le> 1 / 2 ^ 1000 * (1 / 4)" by simp
  also have "\<dots> \<le> n * (1 / 4)" using n by simp
  also have "\<dots> \<le> n * (lo * lo)" using c(3) npos by (intro mult_left_mono) simp_all
  finally have ssn: "1 / 2 ^ 1022 \<le> s * s" using ssl by linarith
  have Dpos: "0 < D" using rnd_pos [OF ssn] by (simp add: D_def fl_mul_def)
  have "D \<le> s * s * hi" using rnd_rel_bounds(2) [OF ssn] by (simp add: D_def fl_mul_def hi_def)
  also have "\<dots> \<le> n * (hi * hi) * hi" using ssu c(2) by (intro mult_right_mono) simp_all
  finally have Du: "D \<le> n * (hi * hi * hi)" by (simp add: mult.assoc)
  \<comment> \<open>the quotient\<close>
  have "n / (n * (hi * hi * hi)) \<le> n / D"
    using Du Dpos npos by (intro divide_left_mono) simp_all
  moreover have "n / (n * (hi * hi * hi)) = 1 / (hi * hi * hi)" using npos by simp
  ultimately have ql: "1 / (hi * hi * hi) \<le> n / D" by simp
  have "(1::real) / 2 ^ 1022 \<le> 1 / 2" by simp
  with c(4) ql have qn: "1 / 2 ^ 1022 \<le> n / D" by linarith
  have "1 / (hi * hi * hi) * lo \<le> n / D * lo"
    using ql c(1) by (intro mult_right_mono) simp_all
  also have "\<dots> \<le> sim" using rnd_rel_bounds(1) [OF qn] by (simp add: sim_def fl_div_def lo_def)
  finally have siml: "lo / (hi * hi * hi) \<le> sim" by simp
  have simpos: "0 \<le> sim" using rnd_pos [OF qn] by (simp add: sim_def fl_div_def)
  \<comment> \<open>adding one and halving\<close>
  have "(1::real) / 2 ^ 1022 \<le> 1" by simp
  with simpos have tn: "1 / 2 ^ 1022 \<le> sim + 1" by linarith
  have "(lo / (hi * hi * hi) + 1) * lo \<le> (sim + 1) * lo"
    using siml c(1) by (intro mult_right_mono) simp_all
  also have "\<dots> \<le> t" using rnd_rel_bounds(1) [OF tn] by (simp add: t_def fl_add_def lo_def)
  finally have tl: "(lo / (hi * hi * hi) + 1) * lo \<le> t" .
  have "1 \<le> sim + 1" using simpos by simp
  then have "rnd 1 \<le> rnd (sim + 1)" by (rule rnd_mono)
  then have t1: "1 \<le> t" by (simp add: t_def fl_add_def)
  have "(1::real) / 2 ^ 1022 \<le> 1 / 2" by simp
  with t1 have hn: "1 / 2 ^ 1022 \<le> t / 2" by linarith
  have "(lo / (hi * hi * hi) + 1) * lo / 2 * lo \<le> t / 2 * lo"
    using tl c(1) by (intro mult_right_mono divide_right_mono) simp_all
  also have "\<dots> \<le> r" using rnd_rel_bounds(1) [OF hn] by (simp add: r_def fl_div_def lo_def)
  finally have "(lo / (hi * hi * hi) + 1) * lo / 2 * lo \<le> r" .
  with c(5) have rl: "1 - 1 / 2 ^ 50 \<le> r" by linarith
  have "(1::real) - 1 / 2 ^ 50 \<le> 1" "(0::real) \<le> 1 - 1 / 2 ^ 50" by simp_all
  with rl have "1 - 1 / 2 ^ 50 \<le> max 0 (min 1 r)" by simp
  moreover have "cosineSimilarity v v = max 0 (min 1 r)"
    using ne Dpos
    by (simp add: cosineSimilarity_def loop eq Let_def r_def t_def sim_def D_def s_def
          not_le [symmetric])
  ultimately show ?thesis by simp
qed


lemma cosineLoop_foldl:
  "length a = length b \<Longrightarrow>
   cosineLoop a b (d, p, q) =
     (foldl (\<lambda>acc (x, y). fl_add acc (fl_mul x y)) d (zip a b),
      foldl (\<lambda>acc (x, y). fl_add acc (fl_mul x y)) p (zip a a),
      foldl (\<lambda>acc (x, y). fl_add acc (fl_mul x y)) q (zip b b))"
  by (induction a b arbitrary: d p q rule: list_induct2) simp_all

lemma cosineLoop_dot_double:
  "length a = length b \<Longrightarrow>
   cosineLoop a b (0, 0, 0) = (dot_double a b, dot_double a a, dot_double b b)"
  unfolding dot_double_def by (rule cosineLoop_foldl)

lemma cosineSimilarity_formula:
  assumes "a \<noteq> []" "length a = length b"
  shows "cosineSimilarity a b =
    (if fl_mul (fl_sqrt (dot_double a a)) (fl_sqrt (dot_double b b)) \<le> 0 then 0
     else max 0 (min 1 (fl_div (fl_add (fl_div (dot_double a b)
            (fl_mul (fl_sqrt (dot_double a a)) (fl_sqrt (dot_double b b)))) 1) 2)))"
proof -
  have c: "\<not> (length a = 0 \<or> length a \<noteq> length b)" using assms by auto
  show ?thesis
    unfolding cosineSimilarity_def if_not_P [OF c] cosineLoop_dot_double [OF assms(2)]
    by (simp add: Let_def)
qed

text \<open>
  Claim C5 (amended). In double arithmetic, and for entries of magnitude at most \<open>2^500\<close>
  in vectors of at most \<open>2^20\<close> entries (so that nothing overflows),
  \<^verbatim>\<open>cosineSimilarity\<close> returns a value in \<open>[0, 1]\<close>. For non-empty vectors of one
  length it is 0 when the product of the two computed norms is not positive and otherwise
  the computed cosine \<open>dot / (sqrt normA * sqrt normB)\<close> remapped by \<open>(sim + 1) / 2\<close> and
  clamped to \<open>[0, 1]\<close>, every operation rounded to a double. It returns 0 whenever an input
  is empty, the lengths differ, or all entries of one vector are zero. On \<open>(v, v)\<close>, for
  \<open>v\<close> whose computed squared norm lies between \<open>2^-1000\<close> and \<open>2^1000\<close>, the result is
  at least \<open>1 - 2^-50\<close> and at most 1 (it need not be 1). And
  \<^verbatim>\<open>cosineSimilarity([], [1,2])\<close> is 0.
\<close>

theorem cosineSimilarity_spec:
  "((\<forall>x\<in>set a. \<bar>x\<bar> \<le> 2 ^ 500) \<and> (\<forall>y\<in>set b. \<bar>y\<bar> \<le> 2 ^ 500) \<and> length a \<le> 2 ^ 20 \<longrightarrow>
      0 \<le> cosineSimilarity a b \<and> cosineSimilarity a b \<le> 1)
   \<and> (a \<noteq> [] \<and> length a = length b \<longrightarrow>
      cosineSimilarity a b =
        (if fl_mul (fl_sqrt (dot_double a a)) (fl_sqrt (dot_double b b)) \<le> 0 then 0
         else max 0 (min 1 (fl_div (fl_add (fl_div (dot_double a b)
                (fl_mul (fl_sqrt (dot_double a a)) (fl_sqrt (dot_double b b)))) 1) 2))))
   \<and> (a = [] \<or> b = [] \<or> length a \<noteq> length b
        \<or> (\<forall>x\<in>set a. x = 0) \<or> (\<forall>y\<in>set b. y = 0) \<longrightarrow>
      cosineSimilarity a b = 0)
   \<and> (1 / 2 ^ 1000 \<le> dot_double v v \<and> dot_double v v \<le> 2 ^ 1000 \<longrightarrow>
      1 - 1 / 2 ^ 50 \<le> cosineSimilarity v v \<and> cosineSimilarity v v \<le> 1)
   \<and> cosineSimilarity [] [1, 2] = 0"
proof -
  have "1 - 1 / 2 ^ 50 \<le> cosineSimilarity v v" if "1 / 2 ^ 1000 \<le> dot_double v v"
    using cosineSimilarity_self_bound [OF cosineLoop_dot_double [OF refl] that] .
  moreover have "cosineSimilarity a b = 0"
    if "a = [] \<or> b = [] \<or> length a \<noteq> length b
        \<or> (\<forall>x\<in>set a. x = 0) \<or> (\<forall>y\<in>set b. y = 0)"
    using that by (rule cosineSimilarity_zero_norm)
  moreover have "cosineSimilarity [] [1, 2] = 0" by (simp add: cosineSimilarity_def)
  ultimately show ?thesis
    using cosineSimilarity_range [of a b] cosineSimilarity_range [of v v]
      cosineSimilarity_formula [of a b]
    by blast
qed

text \<open>
  The claim as stated fails on \<open>(v, v)\<close>: for \<open>v = [1, 1]\<close> the squared norm is 2, the
  rounded square root of 2 squares to \<open>2 + 2^-51\<close>, and the result is \<open>1 - 2^-53\<close>, the
  double below 1. For the non-zero \<open>v = [2^-600]\<close> the square underflows to 0 and the result
  is 0.
\<close>

lemma sqrt_two_double: "fl_sqrt 2 = 6369051672525773 / 2 ^ 52"
proof -
  have lo: "(12738103345051545 / 2 ^ 53 :: real) < sqrt 2"
    by (rule real_less_rsqrt) (simp add: power2_eq_square)
  have hi: "sqrt 2 < (12738103345051547 / 2 ^ 53 :: real)"
    by (rule real_less_lsqrt) (simp_all add: power2_eq_square)
  have one: "(1::real) \<le> sqrt 2" by simp
  have two: "sqrt 2 < (2::real)" using hi by simp
  have "rnd (sqrt 2) = of_int 6369051672525773 * 2 powi (- 52)"
  proof (rule rnd_eqI [of 0 "sqrt 2" "- 52" 6369051672525773])
    show "2 powi 0 \<le> \<bar>sqrt 2\<bar>" using one by simp
    show "\<bar>sqrt 2\<bar> < 2 powi (0 + 1)" using two by simp
    show "- 52 = max (0 - 52) (- 1074 :: int)" by simp
    have e: "sqrt 2 / 2 powi (- 52) = sqrt 2 * 2 ^ 52" by (simp add: power_int_minus)
    have a: "6369051672525773 - 1 / 2 < sqrt 2 * 2 ^ 52" using lo by simp
    have b: "sqrt 2 * 2 ^ 52 < 6369051672525773 + 1 / 2" using hi by simp
    show "\<bar>sqrt 2 / 2 powi (- 52) - of_int 6369051672525773\<bar> < 1 / 2"
      unfolding e abs_less_iff using a b by simp
  qed
  then show ?thesis by (simp add: fl_sqrt_def power_int_minus)
qed

lemma ones_value: "cosineSimilarity [1, 1] [1, 1] = 1 - 1 / 2 ^ 53"
proof -
  have dd: "dot_double [1, 1] [1, 1] = 2"
    by (simp add: dot_double_def fl_add_def fl_mul_def)
  have D: "fl_mul (6369051672525773 / 2 ^ 52) (6369051672525773 / 2 ^ 52) = 2 + 1 / 2 ^ 51"
    unfolding fl_mul_def
    using rnd_eqI [of 1 "6369051672525773 / 2 ^ 52 * (6369051672525773 / 2 ^ 52)" "- 51"
        4503599627370497]
    by simp
  have sim: "fl_div 2 (2 + 1 / 2 ^ 51) = 1 - 1 / 2 ^ 52"
    unfolding fl_div_def
    using rnd_eqI [of "- 1" "2 / (2 + 1 / 2 ^ 51)" "- 53" 9007199254740990]
    by simp
  have t: "fl_add (1 - 1 / 2 ^ 52) 1 = 2 - 1 / 2 ^ 52"
    unfolding fl_add_def
    using rnd_eqI [of 0 "1 - 1 / 2 ^ 52 + 1" "- 52" 9007199254740991]
    by simp
  have r: "fl_div (2 - 1 / 2 ^ 52) 2 = 1 - 1 / 2 ^ 53"
    unfolding fl_div_def
    using rnd_eqI [of "- 1" "(2 - 1 / 2 ^ 52) / 2" "- 53" 9007199254740991]
    by simp
  have pos: "\<not> (2 + 1 / 2 ^ 51 :: real) \<le> 0" by simp
  have "cosineSimilarity [1, 1] [1, 1] =
      (if fl_mul (fl_sqrt 2) (fl_sqrt 2) \<le> 0 then 0
       else max 0 (min 1 (fl_div (fl_add (fl_div 2 (fl_mul (fl_sqrt 2) (fl_sqrt 2))) 1) 2)))"
    using cosineSimilarity_formula [of "[1, 1]" "[1, 1]"] unfolding dd by simp
  also have "\<dots> = max 0 (min 1 (1 - 1 / 2 ^ 53))"
    unfolding sqrt_two_double D sim t r if_not_P [OF pos] by (rule refl)
  also have "\<dots> = 1 - 1 / 2 ^ 53" by simp
  finally show ?thesis .
qed

lemma tiny_value: "cosineSimilarity tiny_vector tiny_vector = 0"
proof -
  have sq: "fl_mul (1 / 2 ^ 600) (1 / 2 ^ 600) = 0"
    unfolding fl_mul_def
    using rnd_eqI [of "- 1200" "1 / 2 ^ 600 * (1 / 2 ^ 600)" "- 1074" 0]
    by (simp add: power_int_minus flip: power_add)
  have loop: "cosineLoop tiny_vector tiny_vector (0, 0, 0) = (0, 0, 0)"
    unfolding tiny_vector_def
    by (simp only: cosineLoop.simps sq fl_add_def add_0_left rnd_zero)
  show ?thesis
    by (simp add: cosineSimilarity_def loop fl_sqrt_def fl_mul_def) 
qed

theorem cosineSimilarity_self_counterexample:
  "cosineSimilarity [1, 1] [1, 1] = 1 - 1 / 2 ^ 53
   \<and> cosineSimilarity [1, 1] [1, 1] \<noteq> 1
   \<and> 0 < hd tiny_vector
   \<and> cosineSimilarity tiny_vector tiny_vector = 0"
  by (simp add: ones_value tiny_value) (simp add: tiny_vector_def)


theorem cosineSimilarity_spec_witness:
  "cosineSimilarity [0, 2] [2, 0] = 1 / 2
   \<and> 0 \<le> cosineSimilarity [0, 2] [2, 0] \<and> cosineSimilarity [0, 2] [2, 0] \<le> 1
   \<and> 1 - 1 / 2 ^ 50 \<le> cosineSimilarity [0, 2] [0, 2] \<and> cosineSimilarity [0, 2] [0, 2] \<le> 1
   \<and> cosineSimilarity [0, 0] [1, 2] = 0
   \<and> cosineSimilarity [1] [1, 2] = 0"
proof -
  have d: "dot_double [0, 2] [2, 0] = 0" "dot_double [0, 2] [0, 2] = 4"
    "dot_double [2, 0] [2, 0] = 4"
    by (simp_all add: dot_double_def fl_add_def fl_mul_def)
  note t1 = cosineSimilarity_spec [of "[0, 2]" "[2, 0]" "[0, 2]"]
  note t2 = cosineSimilarity_spec [of "[0, 0]" "[1, 2]" "[0, 2]"]
  note t3 = cosineSimilarity_spec [of "[1]" "[1, 2]" "[0, 2]"]
  have a: "cosineSimilarity [0, 2] [2, 0] = 1 / 2"
    using t1 [THEN conjunct2, THEN conjunct1] by (simp add: d fl_defs)
  have b: "0 \<le> cosineSimilarity [0, 2] [2, 0] \<and> cosineSimilarity [0, 2] [2, 0] \<le> 1"
    using t1 [THEN conjunct1] by simp
  have c: "1 - 1 / 2 ^ 50 \<le> cosineSimilarity [0, 2] [0, 2] \<and> cosineSimilarity [0, 2] [0, 2] \<le> 1"
    using t1 [THEN conjunct2, THEN conjunct2, THEN conjunct2, THEN conjunct1] by (simp add: d)
  have e: "cosineSimilarity [0, 0] [1, 2] = 0"
    using t2 [THEN conjunct2, THEN conjunct2, THEN conjunct1] by simp
  have f: "cosineSimilarity [1] [1, 2] = 0"
    using t3 [THEN conjunct2, THEN conjunct2, THEN conjunct1] by simp
  from a b c e f show ?thesis by blast
qed

section \<open>Box hit-testing\<close>

lemma sort_key_hd_min:
  "sort_key f xs = y # ys \<Longrightarrow> y \<in> set xs \<and> (\<forall>x\<in>set xs. f y \<le> f x)"
proof -
  assume e: "sort_key f xs = y # ys"
  have s: "sorted (map f (sort_key f xs))" by (rule sorted_sort_key)
  have m: "set (sort_key f xs) = set xs" by simp
  from e m have "y \<in> set xs" by (metis list.set_intros(1))
  moreover have "\<forall>x\<in>set xs. f y \<le> f x"
  proof
    fix x assume "x \<in> set xs"
    with m e have "x = y \<or> x \<in> set ys" by (metis set_ConsD)
    with s e show "f y \<le> f x" by auto
  qed
  ultimately show ?thesis by simp
qed

lemma pickAtClient_hits:
  assumes nd: "rect_width r \<noteq> 0 \<and> rect_height r \<noteq> 0"
  shows "case pickAtClient r sw sh cx cy preds of
           None \<Rightarrow> \<not> (\<exists>d\<in>set preds. bboxContains (pred_bbox d)
                         (px (clientToSource r sw sh cx cy)) (py (clientToSource r sw sh cx cy)))
         | Some hit \<Rightarrow>
             (\<exists>d\<in>set preds. hit = \<lparr>picked_class = pred_class d, picked_bbox = pred_bbox d\<rparr>
                \<and> bboxContains (pred_bbox d)
                     (px (clientToSource r sw sh cx cy)) (py (clientToSource r sw sh cx cy))
                \<and> (\<forall>e\<in>set preds. bboxContains (pred_bbox e)
                     (px (clientToSource r sw sh cx cy)) (py (clientToSource r sw sh cx cy)) \<longrightarrow>
                      bboxArea (pred_bbox d) \<le> bboxArea (pred_bbox e)))"
proof -
  define p where "p = clientToSource r sw sh cx cy"
  define hits where "hits = sort_key (\<lambda>d. bboxArea (pred_bbox d))
                     (filter (\<lambda>d. bboxContains (pred_bbox d) (px p) (py p)) preds)"
  have pick: "pickAtClient r sw sh cx cy preds =
      (case hits of [] \<Rightarrow> None
       | hit # _ \<Rightarrow> Some \<lparr>picked_class = pred_class hit, picked_bbox = pred_bbox hit\<rparr>)"
    using nd by (cases preds) (simp_all add: pickAtClient_def hits_def p_def Let_def)
  show ?thesis unfolding p_def [symmetric]
  proof (cases hits)
    case Nil
    then have "filter (\<lambda>d. bboxContains (pred_bbox d) (px p) (py p)) preds = []"
      by (metis hits_def length_0_conv length_sort)
    then have "\<not> (\<exists>d\<in>set preds. bboxContains (pred_bbox d) (px p) (py p))"
      by (simp add: filter_empty_conv)
    with Nil pick show "case pickAtClient r sw sh cx cy preds of
           None \<Rightarrow> \<not> (\<exists>d\<in>set preds. bboxContains (pred_bbox d) (px p) (py p))
         | Some hit \<Rightarrow>
             (\<exists>d\<in>set preds. hit = \<lparr>picked_class = pred_class d, picked_bbox = pred_bbox d\<rparr>
                \<and> bboxContains (pred_bbox d) (px p) (py p)
                \<and> (\<forall>e\<in>set preds. bboxContains (pred_bbox e) (px p) (py p) \<longrightarrow>
                      bboxArea (pred_bbox d) \<le> bboxArea (pred_bbox e)))" by simp
  next
    case (Cons hit rest)
    from sort_key_hd_min [OF Cons [unfolded hits_def]]
    have "hit \<in> set preds" "bboxContains (pred_bbox hit) (px p) (py p)"
      "\<forall>e\<in>set preds. bboxContains (pred_bbox e) (px p) (py p) \<longrightarrow>
          bboxArea (pred_bbox hit) \<le> bboxArea (pred_bbox e)"
      by auto
    with Cons pick show "case pickAtClient r sw sh cx cy preds of
           None \<Rightarrow> \<not> (\<exists>d\<in>set preds. bboxContains (pred_bbox d) (px p) (py p))
         | Some hit \<Rightarrow>
             (\<exists>d\<in>set preds. hit = \<lparr>picked_class = pred_class d, picked_bbox = pred_bbox d\<rparr>
                \<and> bboxContains (pred_bbox d) (px p) (py p)
                \<and> (\<forall>e\<in>set preds. bboxContains (pred_bbox e) (px p) (py p) \<longrightarrow>
                      bboxArea (pred_bbox d) \<le> bboxArea (pred_bbox e)))" by auto
  qed
qed

text \<open>
  Claim C2. For a view rectangle of non-zero width and height and every prediction list,
  \<^verbatim>\<open>pickAtClient\<close> returns a detection whose box \<open>[x, y, w, h]\<close> contains the mapped source
  point \<open>(px, py)\<close>, that is \<open>x \<le> px \<le> x + w\<close> and \<open>y \<le> py \<le> y + h\<close>, and whose area
  \<open>w * h\<close> is smallest among the detections whose boxes contain it; it returns null exactly
  when no box contains the point. The sums \<open>x + w\<close>, \<open>y + h\<close> and the product \<open>w * h\<close> are
  the doubles the code computes. For boxes A \<open>[0,0,100,100]\<close> and B \<open>[10,10,20,20]\<close> and a
  tap that maps to \<open>(15, 15)\<close>, B is returned. For the single box \<open>[50,50,40,40]\<close> a tap that
  maps to \<open>(500, 500)\<close> returns null. For A, C \<open>[50,50,40,40]\<close> and the smaller D
  \<open>[200,200,5,5]\<close> a tap that maps to \<open>(60, 60)\<close> returns C: D does not contain the point.
\<close>

theorem pickAtClient_smallest:
  "rect_width r \<noteq> 0 \<and> rect_height r \<noteq> 0 \<longrightarrow>
     (let p = clientToSource r sw sh cx cy in
        (case pickAtClient r sw sh cx cy preds of
           None \<Rightarrow>
             \<not> (\<exists>d\<in>set preds. case pred_bbox d of (x, y, w, h) \<Rightarrow>
                   x \<le> px p \<and> px p \<le> fl_add x w \<and> y \<le> py p \<and> py p \<le> fl_add y h)
         | Some hit \<Rightarrow>
             (\<exists>d\<in>set preds. hit = \<lparr>picked_class = pred_class d, picked_bbox = pred_bbox d\<rparr>
                \<and> (case pred_bbox d of (x, y, w, h) \<Rightarrow>
                      x \<le> px p \<and> px p \<le> fl_add x w \<and> y \<le> py p \<and> py p \<le> fl_add y h)
                \<and> (\<forall>e\<in>set preds.
                      (case pred_bbox e of (x, y, w, h) \<Rightarrow>
                         x \<le> px p \<and> px p \<le> fl_add x w \<and> y \<le> py p \<and> py p \<le> fl_add y h) \<longrightarrow>
                      (case pred_bbox d of (x, y, w, h) \<Rightarrow> fl_mul w h)
                        \<le> (case pred_bbox e of (x, y, w, h) \<Rightarrow> fl_mul w h))))
        \<and> (p = \<lparr>px = 15, py = 15\<rparr> \<longrightarrow>
             pickAtClient r sw sh cx cy
               [\<lparr>pred_class = ca, pred_bbox = (0, 0, 100, 100), pred_score = sa\<rparr>,
                \<lparr>pred_class = cb, pred_bbox = (10, 10, 20, 20), pred_score = sb\<rparr>] =
             Some \<lparr>picked_class = cb, picked_bbox = (10, 10, 20, 20)\<rparr>)
        \<and> (p = \<lparr>px = 500, py = 500\<rparr> \<longrightarrow>
             pickAtClient r sw sh cx cy
               [\<lparr>pred_class = cc, pred_bbox = (50, 50, 40, 40), pred_score = sc\<rparr>] = None)
        \<and> (p = \<lparr>px = 60, py = 60\<rparr> \<longrightarrow>
             pickAtClient r sw sh cx cy
               [\<lparr>pred_class = ca, pred_bbox = (0, 0, 100, 100), pred_score = sa\<rparr>,
                \<lparr>pred_class = cc, pred_bbox = (50, 50, 40, 40), pred_score = sc\<rparr>,
                \<lparr>pred_class = cd, pred_bbox = (200, 200, 5, 5), pred_score = sd\<rparr>] =
             Some \<lparr>picked_class = cc, picked_bbox = (50, 50, 40, 40)\<rparr>))"
proof (intro impI)
  assume nd: "rect_width r \<noteq> 0 \<and> rect_height r \<noteq> 0"
  define p where "p = clientToSource r sw sh cx cy"
  note general = pickAtClient_hits [OF nd, where sw = sw and sh = sh and cx = cx and cy = cy
      and preds = preds, unfolded bboxContains_def bboxArea_def, folded p_def]
  have ab: "pickAtClient r sw sh cx cy
               [\<lparr>pred_class = ca, pred_bbox = (0, 0, 100, 100), pred_score = sa\<rparr>,
                \<lparr>pred_class = cb, pred_bbox = (10, 10, 20, 20), pred_score = sb\<rparr>] =
             Some \<lparr>picked_class = cb, picked_bbox = (10, 10, 20, 20)\<rparr>"
    if "p = \<lparr>px = 15, py = 15\<rparr>"
    using nd that
    by (simp add: pickAtClient_def p_def [symmetric] bboxContains_def bboxArea_def fl_defs)
  have miss: "pickAtClient r sw sh cx cy
               [\<lparr>pred_class = cc, pred_bbox = (50, 50, 40, 40), pred_score = sc\<rparr>] = None"
    if "p = \<lparr>px = 500, py = 500\<rparr>"
    using nd that
    by (simp add: pickAtClient_def p_def [symmetric] bboxContains_def bboxArea_def fl_defs)
  have excl: "pickAtClient r sw sh cx cy
               [\<lparr>pred_class = ca, pred_bbox = (0, 0, 100, 100), pred_score = sa\<rparr>,
                \<lparr>pred_class = cc, pred_bbox = (50, 50, 40, 40), pred_score = sc\<rparr>,
                \<lparr>pred_class = cd, pred_bbox = (200, 200, 5, 5), pred_score = sd\<rparr>] =
             Some \<lparr>picked_class = cc, picked_bbox = (50, 50, 40, 40)\<rparr>"
    if "p = \<lparr>px = 60, py = 60\<rparr>"
    using nd that
    by (simp add: pickAtClient_def p_def [symmetric] bboxContains_def bboxArea_def fl_defs)
  show "let p = clientToSource r sw sh cx cy in
        (case pickAtClient r sw sh cx cy preds of
           None \<Rightarrow>
             \<not> (\<exists>d\<in>set preds. case pred_bbox d of (x, y, w, h) \<Rightarrow>
                   x \<le> px p \<and> px p \<le> fl_add x w \<and> y \<le> py p \<and> py p \<le> fl_add y h)
         | Some hit \<Rightarrow>
             (\<exists>d\<in>set preds. hit = \<lparr>picked_class = pred_class d, picked_bbox = pred_bbox d\<rparr>
                \<and> (case pred_bbox d of (x, y, w, h) \<Rightarrow>
                      x \<le> px p \<and> px p \<le> fl_add x w \<and> y \<le> py p \<and> py p \<le> fl_add y h)
                \<and> (\<forall>e\<in>set preds.
                      (case pred_bbox e of (x, y, w, h) \<Rightarrow>
                         x \<le> px p \<and> px p \<le> fl_add x w \<and> y \<le> py p \<and> py p \<le> fl_add y h) \<longrightarrow>
                      (case pred_bbox d of (x, y, w, h) \<Rightarrow> fl_mul w h)
                        \<le> (case pred_bbox e of (x, y, w, h) \<Rightarrow> fl_mul w h))))
        \<and> (p = \<lparr>px = 15, py = 15\<rparr> \<longrightarrow>
             pickAtClient r sw sh cx cy
               [\<lparr>pred_class = ca, pred_bbox = (0, 0, 100, 100), pred_score = sa\<rparr>,
                \<lparr>pred_class = cb, pred_bbox = (10, 10, 20, 20), pred_score = sb\<rparr>] =
             Some \<lparr>picked_class = cb, picked_bbox = (10, 10, 20, 20)\<rparr>)
        \<and> (p = \<lparr>px = 500, py = 500\<rparr> \<longrightarrow>
             pickAtClient r sw sh cx cy
               [\<lparr>pred_class = cc, pred_bbox = (50, 50, 40, 40), pred_score = sc\<rparr>] = None)
        \<and> (p = \<lparr>px = 60, py = 60\<rparr> \<longrightarrow>
             pickAtClient r sw sh cx cy
               [\<lparr>pred_class = ca, pred_bbox = (0, 0, 100, 100), pred_score = sa\<rparr>,
                \<lparr>pred_class = cc, pred_bbox = (50, 50, 40, 40), pred_score = sc\<rparr>,
                \<lparr>pred_class = cd, pred_bbox = (200, 200, 5, 5), pred_score = sd\<rparr>] =
             Some \<lparr>picked_class = cc, picked_bbox = (50, 50, 40, 40)\<rparr>)"
    unfolding Let_def p_def [symmetric] using general ab miss excl by blast
qed

lemma tap_point: "\<bar>c\<bar> \<le> 1000 \<Longrightarrow>
  clientToSource tap_rect 100 100 (of_int c) (of_int c) = \<lparr>px = of_int c, py = of_int c\<rparr>"
proof -
  assume c: "\<bar>c\<bar> \<le> 1000"
  then have "\<bar>c\<bar> \<le> 2 ^ 53" by simp
  then have "rnd (of_int c) = of_int c" by (rule rnd_of_int)
  then show ?thesis
    by (simp add: clientToSource_def tap_rect_def Let_def fl_defs)
qed

theorem pickAtClient_smallest_witness:
  "rect_width tap_rect \<noteq> 0 \<and> rect_height tap_rect \<noteq> 0
   \<and> clientToSource tap_rect 100 100 15 15 = \<lparr>px = 15, py = 15\<rparr>
   \<and> pickAtClient tap_rect 100 100 15 15
        [\<lparr>pred_class = ''person'', pred_bbox = (0, 0, 100, 100), pred_score = Some (9 / 10)\<rparr>,
         \<lparr>pred_class = ''hand'', pred_bbox = (10, 10, 20, 20), pred_score = Some (7 / 10)\<rparr>] =
       Some \<lparr>picked_class = ''hand'', picked_bbox = (10, 10, 20, 20)\<rparr>
   \<and> clientToSource tap_rect 100 100 500 500 = \<lparr>px = 500, py = 500\<rparr>
   \<and> pickAtClient tap_rect 100 100 500 500
        [\<lparr>pred_class = ''cup'', pred_bbox = (50, 50, 40, 40), pred_score = Some (8 / 10)\<rparr>] = None
   \<and> clientToSource tap_rect 100 100 60 60 = \<lparr>px = 60, py = 60\<rparr>
   \<and> pickAtClient tap_rect 100 100 60 60
        [\<lparr>pred_class = ''person'', pred_bbox = (0, 0, 100, 100), pred_score = Some (9 / 10)\<rparr>,
         \<lparr>pred_class = ''cup'', pred_bbox = (50, 50, 40, 40), pred_score = Some (8 / 10)\<rparr>,
         \<lparr>pred_class = ''spoon'', pred_bbox = (200, 200, 5, 5), pred_score = None\<rparr>] =
       Some \<lparr>picked_class = ''cup'', picked_bbox = (50, 50, 40, 40)\<rparr>"
proof -
  have nd: "rect_width tap_rect \<noteq> 0 \<and> rect_height tap_rect \<noteq> 0" by (simp add: tap_rect_def)
  have p1: "clientToSource tap_rect 100 100 15 15 = \<lparr>px = 15, py = 15\<rparr>"
    using tap_point [of 15] by simp
  have p2: "clientToSource tap_rect 100 100 500 500 = \<lparr>px = 500, py = 500\<rparr>"
    using tap_point [of 500] by simp
  have p3: "clientToSource tap_rect 100 100 60 60 = \<lparr>px = 60, py = 60\<rparr>"
    using tap_point [of 60] by simp
  note t1 = pickAtClient_smallest [of tap_rect 100 100 15 15 "[]"
      "''person''" "Some (9 / 10)" "''hand''" "Some (7 / 10)" "''cup''" "Some (8 / 10)"
      "''spoon''" None, rule_format, OF nd, unfolded Let_def]
  note t2 = pickAtClient_smallest [of tap_rect 100 100 500 500 "[]"
      "''person''" "Some (9 / 10)" "''hand''" "Some (7 / 10)" "''cup''" "Some (8 / 10)"
      "''spoon''" None, rule_format, OF nd, unfolded Let_def]
  note t3 = pickAtClient_smallest [of tap_rect 100 100 60 60 "[]"
      "''person''" "Some (9 / 10)" "''hand''" "Some (7 / 10)" "''cup''" "Some (8 / 10)"
      "''spoon''" None, rule_format, OF nd, unfolded Let_def]
  from t1 p1 have a: "pickAtClient tap_rect 100 100 15 15
        [\<lparr>pred_class = ''person'', pred_bbox = (0, 0, 100, 100), pred_score = Some (9 / 10)\<rparr>,
         \<lparr>pred_class = ''hand'', pred_bbox = (10, 10, 20, 20), pred_score = Some (7 / 10)\<rparr>] =
       Some \<lparr>picked_class = ''hand'', picked_bbox = (10, 10, 20, 20)\<rparr>" by blast
  from t2 p2 have b: "pickAtClient tap_rect 100 100 500 500
        [\<lparr>pred_class = ''cup'', pred_bbox = (50, 50, 40, 40), pred_score = Some (8 / 10)\<rparr>] = None"
    by blast
  from t3 p3 have c: "pickAtClient tap_rect 100 100 60 60
        [\<lparr>pred_class = ''person'', pred_bbox = (0, 0, 100, 100), pred_score = Some (9 / 10)\<rparr>,
         \<lparr>pred_class = ''cup'', pred_bbox = (50, 50, 40, 40), pred_score = Some (8 / 10)\<rparr>,
         \<lparr>pred_class = ''spoon'', pred_bbox = (200, 200, 5, 5), pred_score = None\<rparr>] =
       Some \<lparr>picked_class = ''cup'', picked_bbox = (50, 50, 40, 40)\<rparr>" by blast
  from nd p1 a p2 b p3 c show ?thesis by blast
qed

text \<open>
  The right edge of a box is the rounded sum \<open>x + w\<close>: the box \<^verbatim>\<open>[0.1, 0, 0.2, 1]\<close>
  contains the point \<^verbatim>\<open>(0.30000000000000004, 0)\<close>, which lies to the right of the exact
  sum of the two doubles.
\<close>

lemma bboxContains_rounded_sum:
  "bboxContains (7205759403792794 / 2 ^ 56, 0, 7205759403792794 / 2 ^ 55, 1)
      (5404319552844596 / 2 ^ 54) 0
   \<and> \<not> (5404319552844596 / 2 ^ 54
          \<le> (7205759403792794 / 2 ^ 56 + 7205759403792794 / 2 ^ 55 :: real))"
proof -
  have e: "fl_add (7205759403792794 / 2 ^ 56) (7205759403792794 / 2 ^ 55)
      = 5404319552844596 / 2 ^ 54"
    unfolding fl_add_def
    using rnd_eqI_tie [of "- 2" "7205759403792794 / 2 ^ 56 + 7205759403792794 / 2 ^ 55" "- 54"
        5404319552844596] by simp
  have f: "fl_add 0 1 = 1" by (simp add: fl_add_def)
  have "bboxContains (7205759403792794 / 2 ^ 56, 0, 7205759403792794 / 2 ^ 55, 1)
      (5404319552844596 / 2 ^ 54) 0"
    unfolding bboxContains_def prod.case e f by simp
  then show ?thesis by simp
qed

section \<open>Running the detector\<close>

text \<open>
  Claim C8. \<^verbatim>\<open>runDetection\<close> returns exactly the raw predictions whose score is at least
  the threshold, where an unset threshold is 0 (so nothing is filtered when the scores are
  confidences, none negative); it returns the empty list when \<^verbatim>\<open>detect\<close> throws and when
  the model is missing or has no \<^verbatim>\<open>detect\<close> function.
\<close>

theorem runDetection_spec:
  "(detect m = Some f \<and> f img = Returns (Some raw) \<longrightarrow>
      runDetection (Some m) img opts =
        filter (\<lambda>p. scoreOf p \<ge> (case scoreThreshold opts of None \<Rightarrow> 0 | Some t \<Rightarrow> t)) raw
      \<and> (scoreThreshold opts = None \<and> (\<forall>p\<in>set raw. 0 \<le> scoreOf p) \<longrightarrow>
           runDetection (Some m) img opts = raw))
   \<and> (detect m = Some f \<and> f img = Throws \<longrightarrow> runDetection (Some m) img opts = [])
   \<and> runDetection None img opts = []
   \<and> (detect m = None \<longrightarrow> runDetection (Some m) img opts = [])"
  by (auto simp: runDetection_def Let_def filter_id_conv)

theorem runDetection_spec_witness:
  "(runDetection
      (Some \<lparr>detect = Some (\<lambda>i. Returns (Some
         [\<lparr>pred_class = ''cup'', pred_bbox = (50, 50, 40, 40), pred_score = Some (8 / 10)\<rparr>,
          \<lparr>pred_class = ''person'', pred_bbox = (0, 0, 90, 90), pred_score = Some (4 / 10)\<rparr>]))\<rparr>)
      \<lparr>image_width = 640, image_height = 480\<rparr> \<lparr>scoreThreshold = Some (1 / 2)\<rparr> =
      [\<lparr>pred_class = ''cup'', pred_bbox = (50, 50, 40, 40), pred_score = Some (8 / 10)\<rparr>]
    \<and> runDetection
      (Some \<lparr>detect = Some (\<lambda>i. Returns (Some
         [\<lparr>pred_class = ''cup'', pred_bbox = (50, 50, 40, 40), pred_score = Some (8 / 10)\<rparr>,
          \<lparr>pred_class = ''person'', pred_bbox = (0, 0, 90, 90), pred_score = Some (4 / 10)\<rparr>]))\<rparr>)
      \<lparr>image_width = 640, image_height = 480\<rparr> \<lparr>scoreThreshold = None\<rparr> =
      [\<lparr>pred_class = ''cup'', pred_bbox = (50, 50, 40, 40), pred_score = Some (8 / 10)\<rparr>,
       \<lparr>pred_class = ''person'', pred_bbox = (0, 0, 90, 90), pred_score = Some (4 / 10)\<rparr>])
   \<and> runDetection (Some \<lparr>detect = Some (\<lambda>i. Throws)\<rparr>)
        \<lparr>image_width = 640, image_height = 480\<rparr> \<lparr>scoreThreshold = Some (1 / 2)\<rparr> = []
   \<and> runDetection (Some \<lparr>detect = None\<rparr>)
        \<lparr>image_width = 640, image_height = 480\<rparr> \<lparr>scoreThreshold = Some (1 / 2)\<rparr> = []"
  using runDetection_spec
    [of "\<lparr>detect = Some (\<lambda>i. Returns (Some
         [\<lparr>pred_class = ''cup'', pred_bbox = (50, 50, 40, 40), pred_score = Some (8 / 10)\<rparr>,
          \<lparr>pred_class = ''person'', pred_bbox = (0, 0, 90, 90), pred_score = Some (4 / 10)\<rparr>]))\<rparr>"
        "\<lambda>i. Returns (Some
         [\<lparr>pred_class = ''cup'', pred_bbox = (50, 50, 40, 40), pred_score = Some (8 / 10)\<rparr>,
          \<lparr>pred_class = ''person'', pred_bbox = (0, 0, 90, 90), pred_score = Some (4 / 10)\<rparr>])"
        "\<lparr>image_width = 640, image_height = 480\<rparr>"
        "[\<lparr>pred_class = ''cup'', pred_bbox = (50, 50, 40, 40), pred_score = Some (8 / 10)\<rparr>,
          \<lparr>pred_class = ''person'', pred_bbox = (0, 0, 90, 90), pred_score = Some (4 / 10)\<rparr>]"
        "\<lparr>scoreThreshold = Some (1 / 2)\<rparr>"]
    runDetection_spec
    [of "\<lparr>detect = Some (\<lambda>i. Returns (Some
         [\<lparr>pred_class = ''cup'', pred_bbox = (50, 50, 40, 40), pred_score = Some (8 / 10)\<rparr>,
          \<lparr>pred_class = ''person'', pred_bbox = (0, 0, 90, 90), pred_score = Some (4 / 10)\<rparr>]))\<rparr>"
        "\<lambda>i. Returns (Some
         [\<lparr>pred_class = ''cup'', pred_bbox = (50, 50, 40, 40), pred_score = Some (8 / 10)\<rparr>,
          \<lparr>pred_class = ''person'', pred_bbox = (0, 0, 90, 90), pred_score = Some (4 / 10)\<rparr>])"
        "\<lparr>image_width = 640, image_height = 480\<rparr>"
        "[\<lparr>pred_class = ''cup'', pred_bbox = (50, 50, 40, 40), pred_score = Some (8 / 10)\<rparr>,
          \<lparr>pred_class = ''person'', pred_bbox = (0, 0, 90, 90), pred_score = Some (4 / 10)\<rparr>]"
        "\<lparr>scoreThreshold = None\<rparr>"]
    runDetection_spec
    [of "\<lparr>detect = Some (\<lambda>i. Throws)\<rparr>" "\<lambda>i. Throws"
        "\<lparr>image_width = 640, image_height = 480\<rparr>" "[]"
        "\<lparr>scoreThreshold = Some (1 / 2)\<rparr>"]
    runDetection_spec
    [of "\<lparr>detect = None\<rparr>" "\<lambda>i. Throws"
        "\<lparr>image_width = 640, image_height = 480\<rparr>" "[]"
        "\<lparr>scoreThreshold = Some (1 / 2)\<rparr>"]
  by (simp add: scoreOf_def)

section \<open>Disambiguation by embedding\<close>

text \<open>
  Claim C9. With a stored non-empty reference embedding and a hit of the target class, the
  candidate is accepted exactly when \<open>cosineSimilarity reference candidate\<close> is at least
  \<open>FEATURE_SIMILARITY_THRESHOLD = 0.65\<close>; when computing the candidate embedding throws,
  the outcome is acceptance.
\<close>

theorem tryFindTreasure_check_spec:
  "reference \<noteq> [] \<and> picked_class h = target \<longrightarrow>
     ((tryFindTreasure_check (Some h) target (Some reference) (Returns candidate) = MarkerFound)
        \<longleftrightarrow> cosineSimilarity reference candidate \<ge> FEATURE_SIMILARITY_THRESHOLD)
     \<and> FEATURE_SIMILARITY_THRESHOLD = 65 / 100
     \<and> tryFindTreasure_check (Some h) target (Some reference) Throws = MarkerFound"
  by (simp add: tryFindTreasure_check_def Let_def FEATURE_SIMILARITY_THRESHOLD_def)

theorem tryFindTreasure_check_spec_witness:
  "[0, 2] \<noteq> ([] :: real list)
   \<and> picked_class \<lparr>picked_class = ''person'', picked_bbox = (1, 1, 3, 2)\<rparr> = ''person''
   \<and> cosineSimilarity [0, 2] [0, 2] \<ge> FEATURE_SIMILARITY_THRESHOLD
   \<and> tryFindTreasure_check (Some \<lparr>picked_class = ''person'', picked_bbox = (1, 1, 3, 2)\<rparr>)
        ''person'' (Some [0, 2]) (Returns [0, 2]) = MarkerFound
   \<and> \<not> cosineSimilarity [0, 2] [2, 0] \<ge> FEATURE_SIMILARITY_THRESHOLD
   \<and> tryFindTreasure_check (Some \<lparr>picked_class = ''person'', picked_bbox = (1, 1, 3, 2)\<rparr>)
        ''person'' (Some [0, 2]) (Returns [2, 0]) \<noteq> MarkerFound
   \<and> tryFindTreasure_check (Some \<lparr>picked_class = ''person'', picked_bbox = (1, 1, 3, 2)\<rparr>)
        ''person'' (Some [0, 2]) Throws = MarkerFound"
proof -
  have a: "cosineSimilarity [0, 2] [0, 2] = 1"
    by (simp add: cosineSimilarity_def fl_defs)
  have b: "cosineSimilarity [0, 2] [2, 0] = 1 / 2"
    by (simp add: cosineSimilarity_def fl_defs)
  show ?thesis
    using tryFindTreasure_check_spec
            [of "[0, 2]" "\<lparr>picked_class = ''person'', picked_bbox = (1, 1, 3, 2)\<rparr>"
                "''person''" "[0, 2]"]
          tryFindTreasure_check_spec
            [of "[0, 2]" "\<lparr>picked_class = ''person'', picked_bbox = (1, 1, 3, 2)\<rparr>"
                "''person''" "[2, 0]"]
    by (simp add: a b)
qed

section \<open>The mask scan\<close>

lemma fold_upt_invariant:
  assumes base: "P 0 s0"
    and step: "\<And>k s. k < n \<Longrightarrow> P k s \<Longrightarrow> P (Suc k) (f k s)"
  shows "P n (fold f [0..<n] s0)"
proof -
  have "m \<le> n \<Longrightarrow> P m (fold f [0..<m] s0)" for m
  proof (induction m)
    case 0
    then show ?case using base by simp
  next
    case (Suc m)
    then have "P m (fold f [0..<m] s0)" and "m < n" by simp_all
    then have "P (Suc m) (f m (fold f [0..<m] s0))" using step by blast
    then show ?case by simp
  qed
  then show ?thesis by simp
qed

lemma scanned_Suc:
  "col < width \<Longrightarrow>
   scanned d width row (Suc col) x y \<longleftrightarrow>
     scanned d width row col x y
     \<or> (x = col \<and> y = row \<and> alphaAbove d ((row * width + col) * 4))"
  by (auto simp: scanned_def less_Suc_eq)

lemma scanned_row_end:
  "scanned d width row width x y = scanned d width (Suc row) 0 x y"
  by (auto simp: scanned_def less_Suc_eq)

lemma scanned_start: "\<not> scanned d width 0 0 x y"
  by (simp add: scanned_def)

lemma scanned_all:
  "scanned d width height 0 x y = isLit d width height x y"
  by (auto simp: scanned_def isLit_def)

lemma scanPixel_dark:
  "\<not> alphaAbove d ((row * width + col) * 4) \<Longrightarrow> scanPixel d width row col s = s"
  by (simp add: scanPixel_def)

lemma scanPixel_lit:
  "alphaAbove d ((row * width + col) * 4) \<Longrightarrow>
   scanPixel d width row col s =
     \<lparr>minX = min col (minX s), minY = min row (minY s),
      maxX = max col (maxX s), maxY = max row (maxY s), hasPixel = True\<rparr>"
  by (simp add: scanPixel_def min_def max_def)

lemma scan_inv_step:
  assumes col: "col < width" and row: "row < height"
    and inv: "scan_inv d width height row col s"
  shows "scan_inv d width height row (Suc col) (scanPixel d width row col s)"
proof (cases "alphaAbove d ((row * width + col) * 4)")
  case False
  then have same: "scanned d width row (Suc col) x y = scanned d width row col x y" for x y
    using col by (simp add: scanned_Suc)
  from False inv show ?thesis
    by (simp add: scanPixel_dark scan_inv_def same)
next
  case True
  let ?s = "scanPixel d width row col s"
  have new: "scanned d width row (Suc col) col row"
    using col True by (simp add: scanned_Suc)
  have old: "scanned d width row col x y \<Longrightarrow> scanned d width row (Suc col) x y" for x y
    using col by (simp add: scanned_Suc)
  have cases: "scanned d width row (Suc col) x y \<Longrightarrow>
      scanned d width row col x y \<or> (x = col \<and> y = row)" for x y
    using col by (auto simp: scanned_Suc)
  have f: "minX ?s = min col (minX s)" "minY ?s = min row (minY s)"
    "maxX ?s = max col (maxX s)" "maxY ?s = max row (maxY s)" "hasPixel ?s"
    using True by (simp_all add: scanPixel_lit)
  have bounds: "\<forall>x y. scanned d width row (Suc col) x y \<longrightarrow>
      minX ?s \<le> x \<and> x \<le> maxX ?s \<and> minY ?s \<le> y \<and> y \<le> maxY ?s"
  proof (intro allI impI)
    fix x y assume "scanned d width row (Suc col) x y"
    then consider "scanned d width row col x y" | "x = col \<and> y = row"
      using cases by blast
    then show "minX ?s \<le> x \<and> x \<le> maxX ?s \<and> minY ?s \<le> y \<and> y \<le> maxY ?s"
    proof cases
      case 1
      with inv have "minX s \<le> x \<and> x \<le> maxX s \<and> minY s \<le> y \<and> y \<le> maxY s"
        by (simp add: scan_inv_def)
      then show ?thesis by (simp add: f min_le_iff_disj le_max_iff_disj)
    next
      case 2
      then show ?thesis by (simp add: f)
    qed
  qed
  have attained: "(\<exists>y. scanned d width row (Suc col) (minX ?s) y)
            \<and> (\<exists>y. scanned d width row (Suc col) (maxX ?s) y)
            \<and> (\<exists>x. scanned d width row (Suc col) x (minY ?s))
            \<and> (\<exists>x. scanned d width row (Suc col) x (maxY ?s))"
  proof (cases "hasPixel s")
    case False
    with inv have "minX s = width" "minY s = height" "maxX s = 0" "maxY s = 0"
      by (simp_all add: scan_inv_def)
    with col row have "minX ?s = col" "minY ?s = row" "maxX ?s = col" "maxY ?s = row"
      by (simp_all add: f)
    with new show ?thesis by auto
  next
    case hp: True
    with inv obtain y1 y2 x1 x2 where
      o: "scanned d width row col (minX s) y1" "scanned d width row col (maxX s) y2"
         "scanned d width row col x1 (minY s)" "scanned d width row col x2 (maxY s)"
      by (auto simp: scan_inv_def)
    have a: "\<exists>y. scanned d width row (Suc col) (minX ?s) y"
      using new old [OF o(1)] by (cases "col \<le> minX s") (auto simp: f min_def)
    have b: "\<exists>y. scanned d width row (Suc col) (maxX ?s) y"
      using new old [OF o(2)] by (cases "col \<le> maxX s") (auto simp: f max_def)
    have c: "\<exists>x. scanned d width row (Suc col) x (minY ?s)"
      using new old [OF o(3)] by (cases "row \<le> minY s") (auto simp: f min_def)
    have e: "\<exists>x. scanned d width row (Suc col) x (maxY ?s)"
      using new old [OF o(4)] by (cases "row \<le> maxY s") (auto simp: f max_def)
    from a b c e show ?thesis by simp
  qed
  have ex: "\<exists>x y. scanned d width row (Suc col) x y" using new by blast
  show ?thesis
    unfolding scan_inv_def using f(5) ex bounds attained by simp
qed

lemma scanRow_inv:
  assumes row: "row < height" and inv: "scan_inv d width height row 0 s"
  shows "scan_inv d width height (Suc row) 0 (scanRow d width row s)"
proof -
  have "scan_inv d width height row width (fold (scanPixel d width row) [0..<width] s)"
    by (rule fold_upt_invariant [where P = "\<lambda>k. scan_inv d width height row k"])
       (use inv row in \<open>simp_all add: scan_inv_step\<close>)
  then show ?thesis
    by (simp add: scanRow_def scan_inv_def scanned_row_end)
qed

lemma scan_inv_init:
  "scan_inv d width height 0 0
     \<lparr>minX = width, minY = height, maxX = 0, maxY = 0, hasPixel = False\<rparr>"
  by (simp add: scan_inv_def scanned_start)

lemma scan_inv_final:
  "scan_inv d width height height 0
     (fold (scanRow d width) [0..<height]
        \<lparr>minX = width, minY = height, maxX = 0, maxY = 0, hasPixel = False\<rparr>)"
  by (rule fold_upt_invariant [where P = "\<lambda>k. scan_inv d width height k 0"])
     (simp_all add: scan_inv_init scanRow_inv)

lemma maskToBbox_None_iff:
  "maskToBbox d width height = None \<longleftrightarrow> \<not> (\<exists>x y. isLit d width height x y)"
  using scan_inv_final [of d width height]
  by (simp add: maskToBbox_def Let_def scan_inv_def scanned_all)

lemma maskToBbox_Some:
  assumes "maskToBbox d width height = Some (bx, by, bw, bh)"
  shows "(\<forall>x y. isLit d width height x y \<longrightarrow>
            bx \<le> real x \<and> real x + 1 \<le> bx + bw \<and> by \<le> real y \<and> real y + 1 \<le> by + bh)"
    and "(\<exists>x y. isLit d width height x y \<and> real x = bx)"
    and "(\<exists>x y. isLit d width height x y \<and> real x + 1 = bx + bw)"
    and "(\<exists>x y. isLit d width height x y \<and> real y = by)"
    and "(\<exists>x y. isLit d width height x y \<and> real y + 1 = by + bh)"
    and "0 \<le> bx \<and> 0 \<le> by \<and> 1 \<le> bw \<and> 1 \<le> bh
         \<and> bx + bw \<le> real width \<and> by + bh \<le> real height"
proof -
  define s where "s = fold (scanRow d width) [0..<height]
        \<lparr>minX = width, minY = height, maxX = 0, maxY = 0, hasPixel = False\<rparr>"
  have inv: "scan_inv d width height height 0 s"
    unfolding s_def by (rule scan_inv_final)
  from assms have hp: "hasPixel s"
    and b: "bx = real (minX s)" "by = real (minY s)"
      "bw = real (maxX s) - real (minX s) + 1" "bh = real (maxY s) - real (minY s) + 1"
    by (auto simp: maskToBbox_def Let_def s_def [symmetric] split: if_splits)
  from inv have le: "\<And>x y. isLit d width height x y \<Longrightarrow>
      minX s \<le> x \<and> x \<le> maxX s \<and> minY s \<le> y \<and> y \<le> maxY s"
    by (simp add: scan_inv_def scanned_all)
  from inv hp obtain y1 y2 x1 x2 where
    o: "isLit d width height (minX s) y1" "isLit d width height (maxX s) y2"
       "isLit d width height x1 (minY s)" "isLit d width height x2 (maxY s)"
    by (auto simp: scan_inv_def scanned_all)
  show "\<forall>x y. isLit d width height x y \<longrightarrow>
            bx \<le> real x \<and> real x + 1 \<le> bx + bw \<and> by \<le> real y \<and> real y + 1 \<le> by + bh"
  proof (intro allI impI)
    fix x y assume "isLit d width height x y"
    from le [OF this] show
      "bx \<le> real x \<and> real x + 1 \<le> bx + bw \<and> by \<le> real y \<and> real y + 1 \<le> by + bh"
      by (simp add: b)
  qed
  show "\<exists>x y. isLit d width height x y \<and> real x = bx" using o(1) b by blast
  show "\<exists>x y. isLit d width height x y \<and> real x + 1 = bx + bw"
    using o(2) b by (intro exI [of _ "maxX s"] exI [of _ y2]) simp
  show "\<exists>x y. isLit d width height x y \<and> real y = by" using o(3) b by blast
  show "\<exists>x y. isLit d width height x y \<and> real y + 1 = by + bh"
    using o(4) b by (intro exI [of _ x2] exI [of _ "maxY s"]) simp
  have "minX s \<le> maxX s" "minY s \<le> maxY s" using le [OF o(1)] le [OF o(3)] by simp_all
  moreover have "maxX s < width" "maxY s < height" using o(2) o(4) by (simp_all add: isLit_def)
  ultimately show "0 \<le> bx \<and> 0 \<le> by \<and> 1 \<le> bw \<and> 1 \<le> bh
         \<and> bx + bw \<le> real width \<and> by + bh \<le> real height"
    by (simp add: b)
qed

lemma isPointInMask_lit:
  "isPointInMask d width height x0 y0 \<Longrightarrow>
   0 \<le> \<lfloor>x0\<rfloor> \<and> 0 \<le> \<lfloor>y0\<rfloor> \<and> isLit d width height (nat \<lfloor>x0\<rfloor>) (nat \<lfloor>y0\<rfloor>)"
proof -
  assume h: "isPointInMask d width height x0 y0"
  then have b: "0 \<le> \<lfloor>x0\<rfloor>" "\<lfloor>x0\<rfloor> < int width" "0 \<le> \<lfloor>y0\<rfloor>" "\<lfloor>y0\<rfloor> < int height"
    by (simp_all add: isPointInMask_def Let_def not_le not_less split: if_splits)
  from b have c: "\<not> (\<lfloor>x0\<rfloor> < 0 \<or> \<lfloor>x0\<rfloor> \<ge> int width \<or> \<lfloor>y0\<rfloor> < 0 \<or> \<lfloor>y0\<rfloor> \<ge> int height)"
    by linarith
  from h c have "alphaAbove d ((nat \<lfloor>y0\<rfloor> * width + nat \<lfloor>x0\<rfloor>) * 4)"
    unfolding isPointInMask_def Let_def by (simp only: if_False)
  moreover from b have "nat \<lfloor>x0\<rfloor> < width" "nat \<lfloor>y0\<rfloor> < height" by linarith+
  ultimately show ?thesis using b by (simp add: isLit_def)
qed

section \<open>Mask hit-test\<close>

lemma hitLoop_hit:
  "hitLoop people i width height x0 y0 = Returns (Some r) \<Longrightarrow>
   \<exists>k idata. k < length people \<and> hit_index r = i + k
     \<and> maskToImageData (people ! k) = Returns (Some idata)
     \<and> isPointInMask idata width height x0 y0
     \<and> maskToBbox idata width height = Some (hit_bbox r)"
proof (induction people arbitrary: i)
  case Nil
  then show ?case by simp
next
  case (Cons person rest)
  have later: "\<exists>k idata. k < length (person # rest) \<and> hit_index r = i + k
     \<and> maskToImageData ((person # rest) ! k) = Returns (Some idata)
     \<and> isPointInMask idata width height x0 y0
     \<and> maskToBbox idata width height = Some (hit_bbox r)"
    if "hitLoop rest (Suc i) width height x0 y0 = Returns (Some r)"
  proof -
    from Cons.IH [OF that] obtain k idata where
      "k < length rest" "hit_index r = Suc i + k"
      "maskToImageData (rest ! k) = Returns (Some idata)"
      "isPointInMask idata width height x0 y0"
      "maskToBbox idata width height = Some (hit_bbox r)"
      by blast
    then show ?thesis
      by (intro exI [of _ "Suc k"] exI [of _ idata]) simp
  qed
  show ?case
  proof (cases "maskToImageData person")
    case Throws
    with Cons.prems show ?thesis by simp
  next
    case (Returns od)
    show ?thesis
    proof (cases od)
      case None
      with Returns Cons.prems later show ?thesis by simp
    next
      case (Some idata)
      show ?thesis
      proof (cases "isPointInMask idata width height x0 y0")
        case False
        with Some Returns Cons.prems later show ?thesis by simp
      next
        case True
        show ?thesis
        proof (cases "maskToBbox idata width height")
          case None
          with True Some Returns Cons.prems later show ?thesis by simp
        next
          case (Some b)
          with True \<open>od = Some idata\<close> Returns Cons.prems
          have "r = \<lparr>hit_bbox = b, hit_index = i\<rparr>" by simp
          with True Some \<open>od = Some idata\<close> Returns show ?thesis
            by (intro exI [of _ 0] exI [of _ idata]) simp
        qed
      qed
    qed
  qed
qed

lemma getSegmentHitAndBbox_hit:
  assumes "getSegmentHitAndBbox w st img x0 y0 = (Some r, st')"
  shows "\<exists>idata. isPointInMask idata (image_width img) (image_height img) x0 y0
     \<and> maskToBbox idata (image_width img) (image_height img) = Some (hit_bbox r)"
proof -
  from assms obtain people where
    "hitLoop people 0 (image_width img) (image_height img) x0 y0 = Returns (Some r)"
    by (auto simp: getSegmentHitAndBbox_def
             split: prod.splits option.splits js_result.splits if_splits)
  from hitLoop_hit [OF this] show ?thesis by blast
qed

text \<open>
  Claim C10. Whenever \<^verbatim>\<open>getSegmentHitAndBbox\<close> returns \<open>{ bbox, index }\<close> for a point
  \<open>(px, py)\<close>, the pixel \<open>(floor px, floor py)\<close> lies inside the returned box: some mask has
  alpha above 128 at that pixel, the box is the smallest rectangle containing every pixel
  of that mask with alpha above 128 (it contains them all, and each of its four sides
  holds one), and the box has width and height at least 1 within the image bounds.
\<close>

theorem segment_hit_inside_bbox:
  "getSegmentHitAndBbox w st img x0 y0 = (Some r, st') \<and> hit_bbox r = (bx, by, bw, bh) \<longrightarrow>
     bx \<le> of_int \<lfloor>x0\<rfloor> \<and> of_int \<lfloor>x0\<rfloor> + 1 \<le> bx + bw
     \<and> by \<le> of_int \<lfloor>y0\<rfloor> \<and> of_int \<lfloor>y0\<rfloor> + 1 \<le> by + bh
     \<and> 1 \<le> bw \<and> 1 \<le> bh \<and> 0 \<le> bx \<and> 0 \<le> by
     \<and> bx + bw \<le> real (image_width img) \<and> by + bh \<le> real (image_height img)
     \<and> (\<exists>idata.
           0 \<le> \<lfloor>x0\<rfloor> \<and> 0 \<le> \<lfloor>y0\<rfloor>
           \<and> isLit idata (image_width img) (image_height img) (nat \<lfloor>x0\<rfloor>) (nat \<lfloor>y0\<rfloor>)
           \<and> maskToBbox idata (image_width img) (image_height img) = Some (bx, by, bw, bh)
           \<and> (\<forall>x y. isLit idata (image_width img) (image_height img) x y \<longrightarrow>
                 bx \<le> real x \<and> real x + 1 \<le> bx + bw \<and> by \<le> real y \<and> real y + 1 \<le> by + bh)
           \<and> (\<exists>x y. isLit idata (image_width img) (image_height img) x y \<and> real x = bx)
           \<and> (\<exists>x y. isLit idata (image_width img) (image_height img) x y \<and> real x + 1 = bx + bw)
           \<and> (\<exists>x y. isLit idata (image_width img) (image_height img) x y \<and> real y = by)
           \<and> (\<exists>x y. isLit idata (image_width img) (image_height img) x y \<and> real y + 1 = by + bh))"
proof (intro impI)
  assume h: "getSegmentHitAndBbox w st img x0 y0 = (Some r, st') \<and> hit_bbox r = (bx, by, bw, bh)"
  let ?W = "image_width img" and ?H = "image_height img"
  from h getSegmentHitAndBbox_hit [of w st img x0 y0 r st'] obtain idata where
    pin: "isPointInMask idata ?W ?H x0 y0"
    and box: "maskToBbox idata ?W ?H = Some (bx, by, bw, bh)"
    by auto
  note lit = isPointInMask_lit [OF pin]
  note mb = maskToBbox_Some [OF box]
  from lit have fx: "real (nat \<lfloor>x0\<rfloor>) = of_int \<lfloor>x0\<rfloor>" and fy: "real (nat \<lfloor>y0\<rfloor>) = of_int \<lfloor>y0\<rfloor>"
    by simp_all
  from mb(1) lit have
    "bx \<le> real (nat \<lfloor>x0\<rfloor>) \<and> real (nat \<lfloor>x0\<rfloor>) + 1 \<le> bx + bw
     \<and> by \<le> real (nat \<lfloor>y0\<rfloor>) \<and> real (nat \<lfloor>y0\<rfloor>) + 1 \<le> by + bh"
    by blast
  then have inside: "bx \<le> of_int \<lfloor>x0\<rfloor> \<and> of_int \<lfloor>x0\<rfloor> + 1 \<le> bx + bw
     \<and> by \<le> of_int \<lfloor>y0\<rfloor> \<and> of_int \<lfloor>y0\<rfloor> + 1 \<le> by + bh"
    by (simp only: fx fy)
  have ex: "\<exists>idata.
           0 \<le> \<lfloor>x0\<rfloor> \<and> 0 \<le> \<lfloor>y0\<rfloor>
           \<and> isLit idata ?W ?H (nat \<lfloor>x0\<rfloor>) (nat \<lfloor>y0\<rfloor>)
           \<and> maskToBbox idata ?W ?H = Some (bx, by, bw, bh)
           \<and> (\<forall>x y. isLit idata ?W ?H x y \<longrightarrow>
                 bx \<le> real x \<and> real x + 1 \<le> bx + bw \<and> by \<le> real y \<and> real y + 1 \<le> by + bh)
           \<and> (\<exists>x y. isLit idata ?W ?H x y \<and> real x = bx)
           \<and> (\<exists>x y. isLit idata ?W ?H x y \<and> real x + 1 = bx + bw)
           \<and> (\<exists>x y. isLit idata ?W ?H x y \<and> real y = by)
           \<and> (\<exists>x y. isLit idata ?W ?H x y \<and> real y + 1 = by + bh)"
    using lit box mb(1) mb(2) mb(3) mb(4) mb(5) by (intro exI [of _ idata]) blast
  from inside mb(6) ex show
    "bx \<le> of_int \<lfloor>x0\<rfloor> \<and> of_int \<lfloor>x0\<rfloor> + 1 \<le> bx + bw
     \<and> by \<le> of_int \<lfloor>y0\<rfloor> \<and> of_int \<lfloor>y0\<rfloor> + 1 \<le> by + bh
     \<and> 1 \<le> bw \<and> 1 \<le> bh \<and> 0 \<le> bx \<and> 0 \<le> by
     \<and> bx + bw \<le> real ?W \<and> by + bh \<le> real ?H
     \<and> (\<exists>idata.
           0 \<le> \<lfloor>x0\<rfloor> \<and> 0 \<le> \<lfloor>y0\<rfloor>
           \<and> isLit idata ?W ?H (nat \<lfloor>x0\<rfloor>) (nat \<lfloor>y0\<rfloor>)
           \<and> maskToBbox idata ?W ?H = Some (bx, by, bw, bh)
           \<and> (\<forall>x y. isLit idata ?W ?H x y \<longrightarrow>
                 bx \<le> real x \<and> real x + 1 \<le> bx + bw \<and> by \<le> real y \<and> real y + 1 \<le> by + bh)
           \<and> (\<exists>x y. isLit idata ?W ?H x y \<and> real x = bx)
           \<and> (\<exists>x y. isLit idata ?W ?H x y \<and> real x + 1 = bx + bw)
           \<and> (\<exists>x y. isLit idata ?W ?H x y \<and> real y = by)
           \<and> (\<exists>x y. isLit idata ?W ?H x y \<and> real y + 1 = by + bh))"
    by blast
qed

lemma ex_maskToBbox: "maskToBbox ex_mask 2 2 = Some (1, 0, 1, 2)"
  by (simp add: maskToBbox_def scanRow_def scanPixel_def alphaAbove_def ex_mask_def Let_def
        upt_rec [of _ 2] upt_rec [of _ "Suc 0"])

lemma ex_hit:
  "getSegmentHitAndBbox ex_window ex_state ex_image (3 / 2) (1 / 2) =
     (Some \<lparr>hit_bbox = (1, 0, 1, 2), hit_index = 0\<rparr>, ex_loaded)"
  by (simp add: getSegmentHitAndBbox_def loadSegmenter_def ex_window_def ex_state_def
        ex_loaded_def ex_segmenter_def ex_image_def maskToImageData_def isPointInMask_def
        ex_maskToBbox)
     (simp add: alphaAbove_def ex_mask_def)

theorem segment_hit_inside_bbox_witness:
  "getSegmentHitAndBbox ex_window ex_state ex_image (3 / 2) (1 / 2) =
     (Some \<lparr>hit_bbox = (1, 0, 1, 2), hit_index = 0\<rparr>, ex_loaded)
   \<and> hit_bbox \<lparr>hit_bbox = (1, 0, 1, 2), hit_index = 0\<rparr> = (1, 0, 1, 2)
   \<and> (1::real) \<le> of_int \<lfloor>3 / 2 :: real\<rfloor> \<and> of_int \<lfloor>3 / 2 :: real\<rfloor> + 1 \<le> (1::real) + 1
   \<and> (0::real) \<le> of_int \<lfloor>1 / 2 :: real\<rfloor> \<and> of_int \<lfloor>1 / 2 :: real\<rfloor> + 1 \<le> (0::real) + 2
   \<and> (1::real) + 1 \<le> real (image_width ex_image)
   \<and> (0::real) + 2 \<le> real (image_height ex_image)"
  using segment_hit_inside_bbox
          [of ex_window ex_state ex_image "3 / 2" "1 / 2"
              "\<lparr>hit_bbox = (1, 0, 1, 2), hit_index = 0\<rparr>" ex_loaded 1 0 1 2]
        ex_hit
  by simp

section \<open>Mask-first selection\<close>

text \<open>
  Claim C1. For a non-null target class for which segmentation is available, when the mask
  hit-test at the mapped source point succeeds, \<^verbatim>\<open>pickDetectionAt\<close> returns the detection
  \<open>{ class: targetClass, bbox: maskDerivedBox }\<close>, whatever the prediction list holds; when
  the target class is null, segmentation is unavailable for it, or the mask hit-test
  misses, it returns the result of box hit-testing.
\<close>

theorem pickDetectionAt_mask_first:
  "(targetClass = Some tc \<and> isSegmentAvailableForClass w tc
      \<and> getSegmentHitAndBbox w st img
           (px (clientToSource rect sw sh cx cy)) (py (clientToSource rect sw sh cx cy)) =
         (Some r, st') \<longrightarrow>
      pickDetectionAt w st img rect sw sh cx cy preds targetClass =
        (Some \<lparr>picked_class = tc, picked_bbox = hit_bbox r\<rparr>, st'))
   \<and> (targetClass = None
       \<or> (targetClass = Some tc \<and> \<not> isSegmentAvailableForClass w tc)
       \<or> fst (getSegmentHitAndBbox w st img
                (px (clientToSource rect sw sh cx cy)) (py (clientToSource rect sw sh cx cy))) =
          None \<longrightarrow>
      fst (pickDetectionAt w st img rect sw sh cx cy preds targetClass) =
        pickAtClient rect sw sh cx cy preds)"
proof (intro conjI impI)
  assume h: "targetClass = Some tc \<and> isSegmentAvailableForClass w tc
      \<and> getSegmentHitAndBbox w st img
           (px (clientToSource rect sw sh cx cy)) (py (clientToSource rect sw sh cx cy)) =
         (Some r, st')"
  then have "tc \<noteq> []" by (auto simp: isSegmentAvailableForClass_def)
  with h show "pickDetectionAt w st img rect sw sh cx cy preds targetClass =
        (Some \<lparr>picked_class = tc, picked_bbox = hit_bbox r\<rparr>, st')"
    by (simp add: pickDetectionAt_def Let_def)
next
  assume h: "targetClass = None
       \<or> (targetClass = Some tc \<and> \<not> isSegmentAvailableForClass w tc)
       \<or> fst (getSegmentHitAndBbox w st img
                (px (clientToSource rect sw sh cx cy)) (py (clientToSource rect sw sh cx cy))) =
          None"
  then show "fst (pickDetectionAt w st img rect sw sh cx cy preds targetClass) =
        pickAtClient rect sw sh cx cy preds"
    by (auto simp: pickDetectionAt_def Let_def split: option.splits prod.splits)
qed

lemma ex_point: "clientToSource ex_rect 2 2 3 1 = \<lparr>px = 3 / 2, py = 1 / 2\<rparr>"
  by (simp add: clientToSource_def ex_rect_def fl_defs)

theorem pickDetectionAt_mask_first_witness:
  "(isSegmentAvailableForClass ex_window ''person''
    \<and> getSegmentHitAndBbox ex_window ex_state ex_image
         (px (clientToSource ex_rect 2 2 3 1)) (py (clientToSource ex_rect 2 2 3 1)) =
       (Some \<lparr>hit_bbox = (1, 0, 1, 2), hit_index = 0\<rparr>, ex_loaded)
    \<and> bboxContains (0, 0, 2, 2) (px (clientToSource ex_rect 2 2 3 1))
         (py (clientToSource ex_rect 2 2 3 1))
    \<and> pickDetectionAt ex_window ex_state ex_image ex_rect 2 2 3 1
         [\<lparr>pred_class = ''cup'', pred_bbox = (0, 0, 2, 2), pred_score = Some (9 / 10)\<rparr>]
         (Some ''person'') =
       (Some \<lparr>picked_class = ''person'', picked_bbox = (1, 0, 1, 2)\<rparr>, ex_loaded))
   \<and> fst (pickDetectionAt ex_window ex_state ex_image ex_rect 2 2 3 1
         [\<lparr>pred_class = ''cup'', pred_bbox = (0, 0, 2, 2), pred_score = Some (9 / 10)\<rparr>]
         None) =
       Some \<lparr>picked_class = ''cup'', picked_bbox = (0, 0, 2, 2)\<rparr>
   \<and> (\<not> isSegmentAvailableForClass ex_window ''cup''
      \<and> fst (pickDetectionAt ex_window ex_state ex_image ex_rect 2 2 3 1
         [\<lparr>pred_class = ''cup'', pred_bbox = (0, 0, 2, 2), pred_score = Some (9 / 10)\<rparr>]
         (Some ''cup'')) =
       Some \<lparr>picked_class = ''cup'', picked_bbox = (0, 0, 2, 2)\<rparr>)"
proof -
  have a: "isSegmentAvailableForClass ex_window ''person''"
    and c: "\<not> isSegmentAvailableForClass ex_window ''cup''"
    by (simp_all add: isSegmentAvailableForClass_def isSegmentAvailable_def ex_window_def)
  have b: "pickAtClient ex_rect 2 2 3 1
         [\<lparr>pred_class = ''cup'', pred_bbox = (0, 0, 2, 2), pred_score = Some (9 / 10)\<rparr>] =
       Some \<lparr>picked_class = ''cup'', picked_bbox = (0, 0, 2, 2)\<rparr>"
    by (simp add: pickAtClient_def ex_point bboxContains_def fl_defs) (simp add: ex_rect_def)
  show ?thesis
    using pickDetectionAt_mask_first
            [of "Some ''person''" "''person''" ex_window ex_state ex_image ex_rect 2 2 3 1
                "\<lparr>hit_bbox = (1, 0, 1, 2), hit_index = 0\<rparr>" ex_loaded
                "[\<lparr>pred_class = ''cup'', pred_bbox = (0, 0, 2, 2), pred_score = Some (9 / 10)\<rparr>]"]
          pickDetectionAt_mask_first
            [of None "''person''" ex_window ex_state ex_image ex_rect 2 2 3 1
                "\<lparr>hit_bbox = (1, 0, 1, 2), hit_index = 0\<rparr>" ex_loaded
                "[\<lparr>pred_class = ''cup'', pred_bbox = (0, 0, 2, 2), pred_score = Some (9 / 10)\<rparr>]"]
          pickDetectionAt_mask_first
            [of "Some ''cup''" "''cup''" ex_window ex_state ex_image ex_rect 2 2 3 1
                "\<lparr>hit_bbox = (1, 0, 1, 2), hit_index = 0\<rparr>" ex_loaded
                "[\<lparr>pred_class = ''cup'', pred_bbox = (0, 0, 2, 2), pred_score = Some (9 / 10)\<rparr>]"]
    by (simp add: a c b ex_point ex_hit bboxContains_def fl_defs)
qed

section \<open>Greedy matching of detections to masks\<close>













end
